theory Spec2Isabelle
  imports Main "HOL-Library.Multiset" "HOL-Library.Char_ord" "HOL-Library.List_Lexorder"
begin

section \<open>Tree Model and Diff Records (comparator.py)\<close>

text \<open>
  A tree node is a JSON object read with \<^verbatim>\<open>dict.get\<close>: every field may be absent, so
  every field is optional here. \<open>None\<close> is an absent key. A field that is present holds a
  value of the type the Tree Model gives it: a string, a list of strings for \<open>Port\<close>, a list
  of nodes for \<open>Instances\<close>. A JSON value of another type under one of these keys (such as
  \<^verbatim>\<open>null\<close> for \<open>Port\<close>, over which the source cannot iterate) is not a value of this type,
  and what the source does with it is not described here.
\<close>

datatype node = Node
  (Module_name: "string option")
  (Instance_name: "string option")
  (File_path: "string option")
  (Port: "string list option")
  (Instances: "node list option")

text \<open>
  The summary of a node inside a Diff Record. \<open>Instance_name\<close> is the key of the child
  map for a missing instance, which is \<^verbatim>\<open>None\<close> when the child has no such field.
\<close>

record node_summary =
  sum_Module_name :: string
  sum_Instance_name :: "string option"
  sum_Port :: "string list"

datatype side = Missing | Present node_summary

record diff =
  diff_file :: string
  SPEC :: side
  Parsed :: side

text \<open>\<^verbatim>\<open>d.get(k, default)\<close> on an optional field.\<close>

definition get_or :: "'a option \<Rightarrow> 'a \<Rightarrow> 'a" where
  "get_or v d = (case v of None \<Rightarrow> d | Some x \<Rightarrow> x)"

lemma get_or_simps [simp]: "get_or (Some x) d = x" "get_or None d = d"
  by (simp_all add: get_or_def)

text \<open>\<^verbatim>\<open>port_str.replace(" ", "")\<close>: only the space character is removed.\<close>

definition normalize_port :: "string \<Rightarrow> string" where
  "normalize_port port_str = filter (\<lambda>c. c \<noteq> CHR '' '') port_str"

text \<open>\<^verbatim>\<open>sorted([normalize_port(p) for p in ports])\<close>\<close>

definition ports_norm :: "string list \<Rightarrow> string list" where
  "ports_norm ports = sort (map normalize_port ports)"

text \<open>
  \<^verbatim>\<open>{c.get("Instance_name"): c for c in children}\<close>: a later child with the same key
  replaces an earlier one.
\<close>

definition child_map :: "node list \<Rightarrow> string option \<rightharpoonup> node" where
  "child_map children = map_of (rev (map (\<lambda>c. (Instance_name c, c)) children))"

text \<open>The keys of both child maps, each once, before the set fixes its iteration order.\<close>

definition union_keys :: "node list \<Rightarrow> node list \<Rightarrow> string option list" where
  "union_keys s_children p_children =
     remdups (map Instance_name s_children @ map Instance_name p_children)"

text \<open>Lines 30 to 32: the file a record at the current pair is tagged with.\<close>

definition current_node_file :: "node \<Rightarrow> string option \<Rightarrow> string" where
  "current_node_file parsed_node parent_file =
     (if get_or (File_path parsed_node) [] \<noteq> [] then get_or (File_path parsed_node) []
      else if get_or parent_file [] \<noteq> [] then get_or parent_file []
      else ''Top Level'')"

text \<open>Lines 57 to 59: the file handed to the children as their parent file.\<close>

definition current_file :: "node \<Rightarrow> node \<Rightarrow> string" where
  "current_file spec_node parsed_node =
     (if get_or (File_path parsed_node) [] \<noteq> [] then get_or (File_path parsed_node) []
      else if get_or (Module_name parsed_node) [] \<noteq> []
        then get_or (Module_name parsed_node) [] @ ''.v''
      else if get_or (Module_name spec_node) [] \<noteq> []
        then get_or (Module_name spec_node) [] @ ''.v''
      else ''Unknown.v'')"

text \<open>The condition of line 34.\<close>

definition node_mismatch :: "node \<Rightarrow> node \<Rightarrow> bool" where
  "node_mismatch spec_node parsed_node \<longleftrightarrow>
     get_or (Module_name spec_node) [] \<noteq> get_or (Module_name parsed_node) [] \<or>
     ports_norm (get_or (Port spec_node) []) \<noteq> ports_norm (get_or (Port parsed_node) [])"

text \<open>The record of lines 35 to 47.\<close>

definition pair_record :: "node \<Rightarrow> node \<Rightarrow> string option \<Rightarrow> diff" where
  "pair_record spec_node parsed_node parent_file =
     \<lparr>diff_file = current_node_file parsed_node parent_file,
      SPEC = Present \<lparr>sum_Module_name = get_or (Module_name spec_node) [],
                      sum_Instance_name = Some (get_or (Instance_name spec_node) []),
                      sum_Port = get_or (Port spec_node) []\<rparr>,
      Parsed = Present \<lparr>sum_Module_name = get_or (Module_name parsed_node) [],
                        sum_Instance_name = Some (get_or (Instance_name parsed_node) []),
                        sum_Port = get_or (Port parsed_node) []\<rparr>\<rparr>"

text \<open>The record of lines 65 to 73, for a key of the expected children only.\<close>

definition missing_parsed_record :: "string \<Rightarrow> string option \<Rightarrow> node \<Rightarrow> diff" where
  "missing_parsed_record cur_file key child =
     \<lparr>diff_file = cur_file,
      SPEC = Present \<lparr>sum_Module_name = get_or (Module_name child) [],
                      sum_Instance_name = key,
                      sum_Port = get_or (Port child) []\<rparr>,
      Parsed = Missing\<rparr>"

text \<open>
  The record of lines 75 to 86, for a key of the actual children only:
  \<^verbatim>\<open>child_node.get("File_path", current_file)\<close> falls back only when the key is absent.
\<close>

definition missing_spec_record :: "string \<Rightarrow> string option \<Rightarrow> node \<Rightarrow> diff" where
  "missing_spec_record cur_file key child_node =
     \<lparr>diff_file = get_or (File_path child_node) cur_file,
      SPEC = Missing,
      Parsed = Present \<lparr>sum_Module_name = get_or (Module_name child_node) [],
                        sum_Instance_name = key,
                        sum_Port = get_or (Port child_node) []\<rparr>\<rparr>"

lemma child_map_in_set: "child_map cs k = Some c \<Longrightarrow> c \<in> set cs"
  unfolding child_map_def by (auto dest: map_of_SomeD)

lemma child_smaller: "c \<in> set (get_or (Instances n) []) \<Longrightarrow> size c < size n"
proof (cases n)
  case (Node m i f p cs)
  assume "c \<in> set (get_or (Instances n) [])"
  with Node obtain l where l: "cs = Some l" "c \<in> set l"
    by (cases cs) (auto simp: get_or_def)
  from l(2) have "size c \<le> size_list size l"
    by (induction l) auto
  with Node l(1) show ?thesis by simp
qed

text \<open>
  \<open>find_arch_diffs\<close>. The list \<open>diffs\<close> that the source appends to is passed in and
  returned. The source iterates over a Python set of keys, whose order is not fixed:
  \<open>iter\<close> is that order, a function from the keys to the sequence in which the loop
  visits them. A key of neither map cannot come out of the set; the loop body leaves the
  list as it is there.
\<close>

function find_arch_diffs ::
  "(string option list \<Rightarrow> string option list) \<Rightarrow> node \<Rightarrow> node \<Rightarrow> string option \<Rightarrow>
   diff list \<Rightarrow> diff list" where
  "find_arch_diffs iter spec_node parsed_node parent_file diffs =
     (let diffs1 = (if node_mismatch spec_node parsed_node
                    then diffs @ [pair_record spec_node parsed_node parent_file]
                    else diffs);
          s_children = get_or (Instances spec_node) [];
          p_children = get_or (Instances parsed_node) [];
          s_map = child_map s_children;
          p_map = child_map p_children;
          all_keys = iter (union_keys s_children p_children);
          cur_file = current_file spec_node parsed_node
      in fold (\<lambda>key acc.
           case s_map key of
             Some sc \<Rightarrow>
               (case p_map key of
                  Some pc \<Rightarrow> find_arch_diffs iter sc pc (Some cur_file) acc
                | None \<Rightarrow> acc @ [missing_parsed_record cur_file key sc])
           | None \<Rightarrow>
               (case p_map key of
                  Some pc \<Rightarrow> acc @ [missing_spec_record cur_file key pc]
                | None \<Rightarrow> acc))
           all_keys diffs1)"
  by pat_completeness auto
termination
proof (relation "measure (\<lambda>(iter, s, p, pf, ds). size s)")
  show "wf (measure (\<lambda>(iter, s, p, pf, ds). size s))" by simp
next
  fix iter spec_node parsed_node parent_file diffs x xa xb xc xd xe xf xg xh x2 x2a
  assume "xa = get_or (Instances spec_node) []" "xc = child_map xa" "xc xg = Some x2"
  then have "x2 \<in> set (get_or (Instances spec_node) [])"
    by (auto dest: child_map_in_set)
  then show "((iter, x2, x2a, Some xf, xh), iter, spec_node, parsed_node, parent_file, diffs)
       \<in> measure (\<lambda>(iter, s, p, pf, ds). size s)"
    by (simp add: child_smaller)
qed

declare find_arch_diffs.simps [simp del]

text \<open>
  The records one call appends for its own pair (lines 34 to 47), and the records the
  loop body appends for one key (lines 61 to 86), both starting from the empty list.
\<close>

definition pair_diffs :: "node \<Rightarrow> node \<Rightarrow> string option \<Rightarrow> diff list" where
  "pair_diffs spec_node parsed_node parent_file =
     (if node_mismatch spec_node parsed_node
      then [pair_record spec_node parsed_node parent_file] else [])"

definition key_diffs ::
  "(string option list \<Rightarrow> string option list) \<Rightarrow> node \<Rightarrow> node \<Rightarrow> string option \<Rightarrow> diff list" where
  "key_diffs iter spec_node parsed_node key =
     (case child_map (get_or (Instances spec_node) []) key of
        Some sc \<Rightarrow>
          (case child_map (get_or (Instances parsed_node) []) key of
             Some pc \<Rightarrow> find_arch_diffs iter sc pc (Some (current_file spec_node parsed_node)) []
           | None \<Rightarrow> [missing_parsed_record (current_file spec_node parsed_node) key sc])
      | None \<Rightarrow>
          (case child_map (get_or (Instances parsed_node) []) key of
             Some pc \<Rightarrow> [missing_spec_record (current_file spec_node parsed_node) key pc]
           | None \<Rightarrow> []))"

lemma fold_append_concat:
  assumes "\<And>k acc. k \<in> set ks \<Longrightarrow> f k acc = acc @ g k"
  shows "fold f ks acc = acc @ concat (map g ks)"
  using assms by (induction ks arbitrary: acc) auto

lemma find_arch_diffs_append:
  "find_arch_diffs iter s p pf diffs = diffs @ find_arch_diffs iter s p pf []"
proof (induction iter s p pf diffs rule: find_arch_diffs.induct)
  case (1 iter s p pf diffs)
  let ?cur = "current_file s p"
  let ?sm = "child_map (get_or (Instances s) [])"
  let ?pm = "child_map (get_or (Instances p) [])"
  let ?ks = "iter (union_keys (get_or (Instances s) []) (get_or (Instances p) []))"
  let ?f = "\<lambda>key acc. case ?sm key of
             Some sc \<Rightarrow> (case ?pm key of
                  Some pc \<Rightarrow> find_arch_diffs iter sc pc (Some ?cur) acc
                | None \<Rightarrow> acc @ [missing_parsed_record ?cur key sc])
           | None \<Rightarrow> (case ?pm key of
                  Some pc \<Rightarrow> acc @ [missing_spec_record ?cur key pc]
                | None \<Rightarrow> acc)"
  have step: "?f k acc = acc @ key_diffs iter s p k" if "k \<in> set ?ks" for k acc
  proof (cases "?sm k")
    case None
    then show ?thesis by (simp add: key_diffs_def split: option.splits)
  next
    case (Some sc)
    show ?thesis
    proof (cases "?pm k")
      case None
      with Some show ?thesis by (simp add: key_diffs_def)
    next
      case (Some pc)
      from "1.IH"[OF refl refl refl refl refl refl refl that \<open>?sm k = Some sc\<close> Some]
      have "find_arch_diffs iter sc pc (Some ?cur) acc
            = acc @ find_arch_diffs iter sc pc (Some ?cur) []" .
      with Some \<open>?sm k = Some sc\<close> show ?thesis by (simp add: key_diffs_def)
    qed
  qed
  have F: "fold ?f ?ks acc = acc @ concat (map (key_diffs iter s p) ?ks)" for acc
    by (rule fold_append_concat) (rule step)
  have "find_arch_diffs iter s p pf ds = fold ?f ?ks (ds @ pair_diffs s p pf)" for ds
    by (subst find_arch_diffs.simps) (simp add: Let_def pair_diffs_def)
  then show ?case by (simp add: F)
qed

lemma find_arch_diffs_decomp:
  "find_arch_diffs iter s p pf diffs =
     diffs @ pair_diffs s p pf @
     concat (map (key_diffs iter s p)
       (iter (union_keys (get_or (Instances s) []) (get_or (Instances p) []))))"
proof -
  let ?cur = "current_file s p"
  let ?sm = "child_map (get_or (Instances s) [])"
  let ?pm = "child_map (get_or (Instances p) [])"
  let ?ks = "iter (union_keys (get_or (Instances s) []) (get_or (Instances p) []))"
  let ?f = "\<lambda>key acc. case ?sm key of
             Some sc \<Rightarrow> (case ?pm key of
                  Some pc \<Rightarrow> find_arch_diffs iter sc pc (Some ?cur) acc
                | None \<Rightarrow> acc @ [missing_parsed_record ?cur key sc])
           | None \<Rightarrow> (case ?pm key of
                  Some pc \<Rightarrow> acc @ [missing_spec_record ?cur key pc]
                | None \<Rightarrow> acc)"
  have step: "?f k acc = acc @ key_diffs iter s p k" for k acc
    using find_arch_diffs_append[of iter _ _ "Some ?cur" acc]
    by (simp add: key_diffs_def split: option.splits)
  have F: "fold ?f ?ks acc = acc @ concat (map (key_diffs iter s p) ?ks)" for acc
    by (rule fold_append_concat) (rule step)
  have "find_arch_diffs iter s p pf diffs = fold ?f ?ks (diffs @ pair_diffs s p pf)"
    by (subst find_arch_diffs.simps) (simp add: Let_def pair_diffs_def)
  then show ?thesis by (simp add: F)
qed

section \<open>Properties of the Comparator\<close>

text \<open>
  A Python set yields each of its elements once, in some order: an iteration order is a
  function that permutes the keys it is given.
\<close>

definition set_iteration :: "('a list \<Rightarrow> 'a list) \<Rightarrow> bool" where
  "set_iteration iter \<longleftrightarrow> (\<forall>ks. mset (iter ks) = mset ks)"

text \<open>
  Two trees with no structural difference, as the specification puts it: the same module
  name and the same ports once spaces are removed and the entries sorted, at the two
  nodes; the same instance names below them; and no structural difference between the
  two children that the comparator pairs under each of these names. Nothing here is
  taken from the functions of the comparison: the ports are normalized and the names are
  listed in place.
\<close>

function no_structural_difference :: "node \<Rightarrow> node \<Rightarrow> bool" where
  "no_structural_difference s p \<longleftrightarrow>
     get_or (Module_name s) [] = get_or (Module_name p) [] \<and>
     sort (map (filter (\<lambda>c. c \<noteq> CHR '' '')) (get_or (Port s) [])) =
       sort (map (filter (\<lambda>c. c \<noteq> CHR '' '')) (get_or (Port p) [])) \<and>
     set (map Instance_name (get_or (Instances s) [])) =
       set (map Instance_name (get_or (Instances p) [])) \<and>
     list_all (\<lambda>key.
        case child_map (get_or (Instances s) []) key of
          Some sc \<Rightarrow>
            (case child_map (get_or (Instances p) []) key of
               Some pc \<Rightarrow> no_structural_difference sc pc
             | None \<Rightarrow> True)
        | None \<Rightarrow> True)
       (map Instance_name (get_or (Instances s) []))"
  by pat_completeness auto
termination
  by (relation "measure (\<lambda>(s, p). size s)")
     (auto dest!: child_map_in_set simp: child_smaller)

declare no_structural_difference.simps [simp del]

lemma child_map_eq_None: "child_map cs k = None \<longleftrightarrow> k \<notin> Instance_name ` set cs"
  unfolding child_map_def by (force simp: map_of_eq_None_iff)

lemma set_iteration_set: "set_iteration iter \<Longrightarrow> set (iter ks) = set ks"
  unfolding set_iteration_def by (metis set_mset_mset)

lemma set_union_keys:
  "set (union_keys a b) = Instance_name ` set a \<union> Instance_name ` set b"
  by (simp add: union_keys_def)

lemma ports_norm_explicit:
  "ports_norm ps = sort (map (filter (\<lambda>c. c \<noteq> CHR '' '')) ps)"
proof -
  have "normalize_port = filter (\<lambda>c. c \<noteq> CHR '' '')"
    by (rule ext) (simp add: normalize_port_def)
  then show ?thesis by (simp add: ports_norm_def)
qed

lemma no_difference_empty:
  "set_iteration iter \<Longrightarrow> no_structural_difference s p \<Longrightarrow>
   find_arch_diffs iter s p pf [] = []"
proof (induction s p arbitrary: pf rule: no_structural_difference.induct)
  case (1 s p)
  let ?sc = "get_or (Instances s) []" and ?pc = "get_or (Instances p) []"
  from "1.prems"(2) have
    m: "get_or (Module_name s) [] = get_or (Module_name p) []" and
    q: "ports_norm (get_or (Port s) []) = ports_norm (get_or (Port p) [])" and
    k: "Instance_name ` set ?sc = Instance_name ` set ?pc" and
    r: "list_all (\<lambda>key.
        case child_map ?sc key of
          Some sc \<Rightarrow> (case child_map ?pc key of
               Some pc \<Rightarrow> no_structural_difference sc pc | None \<Rightarrow> True)
        | None \<Rightarrow> True) (map Instance_name ?sc)"
    by (subst (asm) no_structural_difference.simps; simp add: ports_norm_explicit)+
  have "key_diffs iter s p key = []" if "key \<in> set (iter (union_keys ?sc ?pc))" for key
  proof -
    from that "1.prems"(1) have in_u: "key \<in> set (union_keys ?sc ?pc)"
      by (simp add: set_iteration_set)
    with k have in_s: "key \<in> Instance_name ` set ?sc" and in_p: "key \<in> Instance_name ` set ?pc"
      by (auto simp: set_union_keys)
    then obtain sc pc where c: "child_map ?sc key = Some sc" "child_map ?pc key = Some pc"
      using child_map_eq_None by (metis not_Some_eq)
    from in_s have in_m: "key \<in> set (map Instance_name ?sc)" by simp
    from r in_m c have "no_structural_difference sc pc"
      by (auto simp: list_all_iff)
    from "1.IH"[OF in_m c "1.prems"(1) this]
    show ?thesis using c by (simp add: key_diffs_def)
  qed
  moreover have "pair_diffs s p pf = []"
    using m q by (simp add: pair_diffs_def node_mismatch_def)
  ultimately show ?case
    by (subst find_arch_diffs_decomp) simp
qed

lemma count_iter_union_keys:
  assumes "set_iteration iter" "key \<in> set (union_keys a b)"
  shows "count_list (iter (union_keys a b)) key = 1"
proof -
  have "distinct (union_keys a b)" by (simp add: union_keys_def)
  with assms(2) have "count (mset (union_keys a b)) key = 1"
    by (simp add: distinct_count_atmost_1)
  with assms(1) have "count (mset (iter (union_keys a b))) key = 1"
    by (simp add: set_iteration_def)
  then show ?thesis by (simp add: count_mset)
qed

lemma child_map_key: "child_map cs key = Some c \<Longrightarrow> key \<in> Instance_name ` set cs"
  using child_map_eq_None[of cs key] by simp

text \<open>
  The end-to-end scenario of the specification: \<open>Top\<close> with one instance \<open>U1\<close> of \<open>ModA\<close>.
  The first actual tree differs from the expected one in the order and the spacing of
  the ports only; the second has another port on \<open>U1\<close>; the third has another module
  behind \<open>U1\<close>, with the expected ports.
\<close>

definition ex_expected :: node where
  "ex_expected = Node (Some ''Top'') (Some ''Top'') None (Some [])
     (Some [Node (Some ''ModA'') (Some ''U1'') None (Some [''p1 : a'', ''p2 : b'']) (Some [])])"

definition ex_actual :: node where
  "ex_actual = Node (Some ''Top'') (Some ''Top'') (Some ''top.v'') (Some [])
     (Some [Node (Some ''ModA'') (Some ''U1'') (Some ''moda.v'') (Some [''p2:b'', ''p1:a'']) (Some [])])"

definition ex_actual_port :: node where
  "ex_actual_port = Node (Some ''Top'') (Some ''Top'') (Some ''top.v'') (Some [])
     (Some [Node (Some ''ModA'') (Some ''U1'') (Some ''moda.v'') (Some [''p2:b'', ''p3:a'']) (Some [])])"

definition ex_actual_module :: node where
  "ex_actual_module = Node (Some ''Top'') (Some ''Top'') (Some ''top.v'') (Some [])
     (Some [Node (Some ''ModX'') (Some ''U1'') (Some ''modx.v'') (Some [''p2:b'', ''p1:a'']) (Some [])])"

text \<open>
  Claim C1. What a call of \<open>find_arch_diffs\<close> on a pair of nodes (the two roots, or two
  children paired under one instance name) appends is: for the pair itself, exactly one
  record, holding the module name, instance name and ports of both nodes, when the module
  names differ or the port lists differ once their entries have lost their spaces and are
  sorted, and no record otherwise; after it, what the loop appends for each instance
  name of either node. Every instance name that both nodes have is visited once, and
  what is appended for it is the output of the call on the two children of that name.
  Hence a module name mismatch is reported whatever the ports are, a port mismatch is
  reported whatever the module names are, and two trees with no structural difference
  leave the report as it was (empty when it started empty). The normalized port sets of
  the specification are these sorted lists: an entry that occurs twice counts twice.
\<close>

theorem record_iff_mismatch:
  assumes "set_iteration iter"
  shows "find_arch_diffs iter s p pf diffs =
           diffs @
           (if get_or (Module_name s) [] \<noteq> get_or (Module_name p) [] \<or>
               sort (map (filter (\<lambda>c. c \<noteq> CHR '' '')) (get_or (Port s) [])) \<noteq>
               sort (map (filter (\<lambda>c. c \<noteq> CHR '' '')) (get_or (Port p) []))
            then [\<lparr>diff_file = current_node_file p pf,
                   SPEC = Present \<lparr>sum_Module_name = get_or (Module_name s) [],
                                   sum_Instance_name = Some (get_or (Instance_name s) []),
                                   sum_Port = get_or (Port s) []\<rparr>,
                   Parsed = Present \<lparr>sum_Module_name = get_or (Module_name p) [],
                                     sum_Instance_name = Some (get_or (Instance_name p) []),
                                     sum_Port = get_or (Port p) []\<rparr>\<rparr>]
            else []) @
           concat (map (key_diffs iter s p)
             (iter (remdups (map Instance_name (get_or (Instances s) []) @
                             map Instance_name (get_or (Instances p) []))))) \<and>
         (\<forall>key sc pc. child_map (get_or (Instances s) []) key = Some sc \<and>
                      child_map (get_or (Instances p) []) key = Some pc \<longrightarrow>
            count_list (iter (remdups (map Instance_name (get_or (Instances s) []) @
                                       map Instance_name (get_or (Instances p) [])))) key = 1 \<and>
            key_diffs iter s p key = find_arch_diffs iter sc pc (Some (current_file s p)) []) \<and>
         (get_or (Module_name s) [] \<noteq> get_or (Module_name p) [] \<longrightarrow>
            pair_record s p pf \<in> set (find_arch_diffs iter s p pf diffs)) \<and>
         (sort (map (filter (\<lambda>c. c \<noteq> CHR '' '')) (get_or (Port s) [])) \<noteq>
          sort (map (filter (\<lambda>c. c \<noteq> CHR '' '')) (get_or (Port p) [])) \<longrightarrow>
            pair_record s p pf \<in> set (find_arch_diffs iter s p pf diffs)) \<and>
         (no_structural_difference s p \<longrightarrow> find_arch_diffs iter s p pf diffs = diffs)"
proof -
  let ?keys = "remdups (map Instance_name (get_or (Instances s) []) @
                        map Instance_name (get_or (Instances p) []))"
  have u: "union_keys (get_or (Instances s) []) (get_or (Instances p) []) = ?keys"
    by (simp add: union_keys_def)
  note d = find_arch_diffs_decomp[of iter s p pf diffs]
  have 1: "find_arch_diffs iter s p pf diffs =
           diffs @
           (if get_or (Module_name s) [] \<noteq> get_or (Module_name p) [] \<or>
               sort (map (filter (\<lambda>c. c \<noteq> CHR '' '')) (get_or (Port s) [])) \<noteq>
               sort (map (filter (\<lambda>c. c \<noteq> CHR '' '')) (get_or (Port p) []))
            then [\<lparr>diff_file = current_node_file p pf,
                   SPEC = Present \<lparr>sum_Module_name = get_or (Module_name s) [],
                                   sum_Instance_name = Some (get_or (Instance_name s) []),
                                   sum_Port = get_or (Port s) []\<rparr>,
                   Parsed = Present \<lparr>sum_Module_name = get_or (Module_name p) [],
                                     sum_Instance_name = Some (get_or (Instance_name p) []),
                                     sum_Port = get_or (Port p) []\<rparr>\<rparr>]
            else []) @
           concat (map (key_diffs iter s p) (iter ?keys))"
    using d by (simp add: u pair_diffs_def node_mismatch_def pair_record_def ports_norm_explicit)
  have 2: "\<forall>key sc pc. child_map (get_or (Instances s) []) key = Some sc \<and>
                      child_map (get_or (Instances p) []) key = Some pc \<longrightarrow>
            count_list (iter ?keys) key = 1 \<and>
            key_diffs iter s p key = find_arch_diffs iter sc pc (Some (current_file s p)) []"
  proof (intro allI impI)
    fix key sc pc
    assume a: "child_map (get_or (Instances s) []) key = Some sc \<and>
               child_map (get_or (Instances p) []) key = Some pc"
    then have "key \<in> set (union_keys (get_or (Instances s) []) (get_or (Instances p) []))"
      by (auto simp: set_union_keys dest: child_map_key)
    from count_iter_union_keys[OF assms this] have "count_list (iter ?keys) key = 1"
      by (simp add: u)
    moreover from a have
      "key_diffs iter s p key = find_arch_diffs iter sc pc (Some (current_file s p)) []"
      by (simp add: key_diffs_def)
    ultimately show "count_list (iter ?keys) key = 1 \<and>
            key_diffs iter s p key = find_arch_diffs iter sc pc (Some (current_file s p)) []"
      by blast
  qed
  have 3: "get_or (Module_name s) [] \<noteq> get_or (Module_name p) [] \<longrightarrow>
            pair_record s p pf \<in> set (find_arch_diffs iter s p pf diffs)"
    by (subst d) (simp add: pair_diffs_def node_mismatch_def)
  have 4: "sort (map (filter (\<lambda>c. c \<noteq> CHR '' '')) (get_or (Port s) [])) \<noteq>
          sort (map (filter (\<lambda>c. c \<noteq> CHR '' '')) (get_or (Port p) [])) \<longrightarrow>
            pair_record s p pf \<in> set (find_arch_diffs iter s p pf diffs)"
    by (subst d) (simp add: pair_diffs_def node_mismatch_def ports_norm_explicit)
  have 5: "no_structural_difference s p \<longrightarrow> find_arch_diffs iter s p pf diffs = diffs"
    using no_difference_empty[OF assms, of s p pf] find_arch_diffs_append[of iter s p pf diffs]
    by simp
  from 1 2 3 4 5 show ?thesis by blast
qed

theorem record_iff_mismatch_witness:
  "set_iteration (\<lambda>ks :: string option list. ks) \<and> no_structural_difference ex_expected ex_actual \<and>
   find_arch_diffs (\<lambda>ks. ks) ex_expected ex_actual None [] = [] \<and>
   find_arch_diffs (\<lambda>ks. ks) ex_expected ex_actual_port None [] =
     [\<lparr>diff_file = ''moda.v'',
       SPEC = Present \<lparr>sum_Module_name = ''ModA'', sum_Instance_name = Some ''U1'',
                       sum_Port = [''p1 : a'', ''p2 : b'']\<rparr>,
       Parsed = Present \<lparr>sum_Module_name = ''ModA'', sum_Instance_name = Some ''U1'',
                         sum_Port = [''p2:b'', ''p3:a'']\<rparr>\<rparr>] \<and>
   find_arch_diffs (\<lambda>ks. ks) ex_expected ex_actual_module None [] =
     [\<lparr>diff_file = ''modx.v'',
       SPEC = Present \<lparr>sum_Module_name = ''ModA'', sum_Instance_name = Some ''U1'',
                       sum_Port = [''p1 : a'', ''p2 : b'']\<rparr>,
       Parsed = Present \<lparr>sum_Module_name = ''ModX'', sum_Instance_name = Some ''U1'',
                         sum_Port = [''p2:b'', ''p1:a'']\<rparr>\<rparr>] \<and>
   find_arch_diffs (\<lambda>ks. ks) (Node (Some ''Top'') (Some ''Top'') None (Some [''clk'']) (Some []))
       (Node (Some ''Chip'') (Some ''Top'') None (Some ['' clk'']) (Some [])) None [] =
     [\<lparr>diff_file = ''Top Level'',
       SPEC = Present \<lparr>sum_Module_name = ''Top'', sum_Instance_name = Some ''Top'',
                       sum_Port = [''clk'']\<rparr>,
       Parsed = Present \<lparr>sum_Module_name = ''Chip'', sum_Instance_name = Some ''Top'',
                         sum_Port = ['' clk'']\<rparr>\<rparr>]"
proof -
  have it: "set_iteration (\<lambda>ks :: string option list. ks)"
    by (simp add: set_iteration_def)
  let ?sc = "Node (Some ''ModA'') (Some ''U1'') None (Some [''p1 : a'', ''p2 : b'']) (Some [])"
  let ?pc1 = "Node (Some ''ModA'') (Some ''U1'') (Some ''moda.v'') (Some [''p2:b'', ''p3:a'']) (Some [])"
  let ?pc2 = "Node (Some ''ModX'') (Some ''U1'') (Some ''modx.v'') (Some [''p2:b'', ''p1:a'']) (Some [])"
  have nd: "no_structural_difference ex_expected ex_actual"
    by (simp add: no_structural_difference.simps ex_expected_def ex_actual_def child_map_def)
  from record_iff_mismatch[OF it, of ex_expected ex_actual None "[]"] nd
  have r0: "find_arch_diffs (\<lambda>ks. ks) ex_expected ex_actual None [] = []"
    by blast
  have cs: "child_map (get_or (Instances ex_expected) []) (Some ''U1'') = Some ?sc"
    by (simp add: child_map_def ex_expected_def)
  have cp1: "child_map (get_or (Instances ex_actual_port) []) (Some ''U1'') = Some ?pc1"
    by (simp add: child_map_def ex_actual_port_def)
  have cp2: "child_map (get_or (Instances ex_actual_module) []) (Some ''U1'') = Some ?pc2"
    by (simp add: child_map_def ex_actual_module_def)
  note t1 = record_iff_mismatch[OF it, of ex_expected ex_actual_port None "[]"]
  from t1 cs cp1 have k1: "key_diffs (\<lambda>ks. ks) ex_expected ex_actual_port (Some ''U1'') =
      find_arch_diffs (\<lambda>ks. ks) ?sc ?pc1 (Some (current_file ex_expected ex_actual_port)) []"
    by blast
  from t1 have d1: "find_arch_diffs (\<lambda>ks. ks) ex_expected ex_actual_port None [] =
      key_diffs (\<lambda>ks. ks) ex_expected ex_actual_port (Some ''U1'')"
    by (simp add: ex_expected_def ex_actual_port_def)
  from record_iff_mismatch[OF it, of ?sc ?pc1 "Some (current_file ex_expected ex_actual_port)" "[]"]
  have c1: "find_arch_diffs (\<lambda>ks. ks) ?sc ?pc1 (Some (current_file ex_expected ex_actual_port)) [] =
     [\<lparr>diff_file = ''moda.v'',
       SPEC = Present \<lparr>sum_Module_name = ''ModA'', sum_Instance_name = Some ''U1'',
                       sum_Port = [''p1 : a'', ''p2 : b'']\<rparr>,
       Parsed = Present \<lparr>sum_Module_name = ''ModA'', sum_Instance_name = Some ''U1'',
                         sum_Port = [''p2:b'', ''p3:a'']\<rparr>\<rparr>]"
    by (simp add: current_node_file_def)
  note t2 = record_iff_mismatch[OF it, of ex_expected ex_actual_module None "[]"]
  from t2 cs cp2 have k2: "key_diffs (\<lambda>ks. ks) ex_expected ex_actual_module (Some ''U1'') =
      find_arch_diffs (\<lambda>ks. ks) ?sc ?pc2 (Some (current_file ex_expected ex_actual_module)) []"
    by blast
  from t2 have d2: "find_arch_diffs (\<lambda>ks. ks) ex_expected ex_actual_module None [] =
      key_diffs (\<lambda>ks. ks) ex_expected ex_actual_module (Some ''U1'')"
    by (simp add: ex_expected_def ex_actual_module_def)
  from record_iff_mismatch[OF it, of ?sc ?pc2 "Some (current_file ex_expected ex_actual_module)" "[]"]
  have c2: "find_arch_diffs (\<lambda>ks. ks) ?sc ?pc2 (Some (current_file ex_expected ex_actual_module)) [] =
     [\<lparr>diff_file = ''modx.v'',
       SPEC = Present \<lparr>sum_Module_name = ''ModA'', sum_Instance_name = Some ''U1'',
                       sum_Port = [''p1 : a'', ''p2 : b'']\<rparr>,
       Parsed = Present \<lparr>sum_Module_name = ''ModX'', sum_Instance_name = Some ''U1'',
                         sum_Port = [''p2:b'', ''p1:a'']\<rparr>\<rparr>]"
    by (simp add: current_node_file_def)
  from record_iff_mismatch[OF it, of "Node (Some ''Top'') (Some ''Top'') None (Some [''clk'']) (Some [])"
      "Node (Some ''Chip'') (Some ''Top'') None (Some ['' clk'']) (Some [])" None "[]"]
  have r3: "find_arch_diffs (\<lambda>ks. ks) (Node (Some ''Top'') (Some ''Top'') None (Some [''clk'']) (Some []))
       (Node (Some ''Chip'') (Some ''Top'') None (Some ['' clk'']) (Some [])) None [] =
     [\<lparr>diff_file = ''Top Level'',
       SPEC = Present \<lparr>sum_Module_name = ''Top'', sum_Instance_name = Some ''Top'',
                       sum_Port = [''clk'']\<rparr>,
       Parsed = Present \<lparr>sum_Module_name = ''Chip'', sum_Instance_name = Some ''Top'',
                         sum_Port = ['' clk'']\<rparr>\<rparr>]"
    by (simp add: current_node_file_def)
  from d1 k1 c1 have r1: "find_arch_diffs (\<lambda>ks. ks) ex_expected ex_actual_port None [] =
     [\<lparr>diff_file = ''moda.v'',
       SPEC = Present \<lparr>sum_Module_name = ''ModA'', sum_Instance_name = Some ''U1'',
                       sum_Port = [''p1 : a'', ''p2 : b'']\<rparr>,
       Parsed = Present \<lparr>sum_Module_name = ''ModA'', sum_Instance_name = Some ''U1'',
                         sum_Port = [''p2:b'', ''p3:a'']\<rparr>\<rparr>]"
    by (simp only:)
  from d2 k2 c2 have r2: "find_arch_diffs (\<lambda>ks. ks) ex_expected ex_actual_module None [] =
     [\<lparr>diff_file = ''modx.v'',
       SPEC = Present \<lparr>sum_Module_name = ''ModA'', sum_Instance_name = Some ''U1'',
                       sum_Port = [''p1 : a'', ''p2 : b'']\<rparr>,
       Parsed = Present \<lparr>sum_Module_name = ''ModX'', sum_Instance_name = Some ''U1'',
                         sum_Port = [''p2:b'', ''p1:a'']\<rparr>\<rparr>]"
    by (simp only:)
  from it nd r0 r1 r2 r3 show ?thesis by blast
qed

text \<open>
  The edits of a port list that the specification calls formatting drift: any permutation
  of the entries, a space inserted into an entry, a space removed from an entry, and any
  sequence of such edits.
\<close>

inductive port_edit :: "string list \<Rightarrow> string list \<Rightarrow> bool" where
  permute: "mset ps = mset qs \<Longrightarrow> port_edit ps qs"
| insert_space: "port_edit (xs @ [a @ b] @ ys) (xs @ [a @ CHR '' '' # b] @ ys)"
| remove_space: "port_edit (xs @ [a @ CHR '' '' # b] @ ys) (xs @ [a @ b] @ ys)"
| both: "port_edit ps qs \<Longrightarrow> port_edit qs rs \<Longrightarrow> port_edit ps rs"

lemma ports_norm_mset: "mset ps = mset qs \<Longrightarrow> ports_norm ps = ports_norm qs"
proof -
  assume "mset ps = mset qs"
  then have "mset (map normalize_port ps) = mset (map normalize_port qs)"
    by (metis mset_map)
  then show ?thesis
    unfolding ports_norm_def by (metis properties_for_sort mset_sort sorted_sort)
qed

lemma port_edit_norm: "port_edit ps qs \<Longrightarrow> ports_norm ps = ports_norm qs"
proof (induction rule: port_edit.induct)
  case (permute ps qs)
  then show ?case by (rule ports_norm_mset)
qed (simp_all add: ports_norm_def normalize_port_def)

text \<open>
  Claim C2. Port comparison is insensitive to order and to spaces: when the port list of
  either node of a pair is replaced by a permutation of it, or by a list with spaces
  inserted into or removed from its entries, a record is emitted at the pair after the
  edit exactly if one was emitted before it, and the whole report keeps its length. The
  ports \<open>["a : x", "b : y"]\<close> against \<open>["b:y", "a:x"]\<close> give no record at their pair.
\<close>

theorem port_compare_insensitive:
  assumes "port_edit ps qs"
  shows "(pair_diffs (Node m i f (Some ps) cs) p pf = []) =
           (pair_diffs (Node m i f (Some qs) cs) p pf = []) \<and>
         (pair_diffs s (Node m i f (Some ps) cs) pf = []) =
           (pair_diffs s (Node m i f (Some qs) cs) pf = []) \<and>
         length (find_arch_diffs iter (Node m i f (Some ps) cs) p pf diffs) =
           length (find_arch_diffs iter (Node m i f (Some qs) cs) p pf diffs) \<and>
         length (find_arch_diffs iter s (Node m i f (Some ps) cs) pf diffs) =
           length (find_arch_diffs iter s (Node m i f (Some qs) cs) pf diffs) \<and>
         pair_diffs (Node m i f (Some [''a : x'', ''b : y'']) cs)
                    (Node m i' f' (Some [''b:y'', ''a:x'']) cs') pf = []"
proof -
  have ex: "ports_norm [''a : x'', ''b : y''] = ports_norm [''b:y'', ''a:x'']"
    by (simp add: ports_norm_def normalize_port_def)
  have c1: "current_file (Node m i f (Some ps) cs) p = current_file (Node m i f (Some qs) cs) p"
    by (simp add: current_file_def)
  have c2: "current_file s (Node m i f (Some ps) cs) = current_file s (Node m i f (Some qs) cs)"
    by (simp add: current_file_def)
  have k1: "key_diffs iter (Node m i f (Some ps) cs) p = key_diffs iter (Node m i f (Some qs) cs) p"
    by (rule ext) (simp add: key_diffs_def c1 split: option.splits)
  have k2: "key_diffs iter s (Node m i f (Some ps) cs) = key_diffs iter s (Node m i f (Some qs) cs)"
    by (rule ext) (simp add: key_diffs_def c2 split: option.splits)
  have l1: "length (pair_diffs (Node m i f (Some ps) cs) p pf) =
            length (pair_diffs (Node m i f (Some qs) cs) p pf)"
    using port_edit_norm[OF assms] by (simp add: pair_diffs_def node_mismatch_def get_or_def)
  have l2: "length (pair_diffs s (Node m i f (Some ps) cs) pf) =
            length (pair_diffs s (Node m i f (Some qs) cs) pf)"
    using port_edit_norm[OF assms] by (simp add: pair_diffs_def node_mismatch_def get_or_def)
  have "length (find_arch_diffs iter (Node m i f (Some ps) cs) p pf diffs) =
        length (find_arch_diffs iter (Node m i f (Some qs) cs) p pf diffs)"
    by (simp add: find_arch_diffs_decomp[of iter "Node m i f (Some ps) cs"]
        find_arch_diffs_decomp[of iter "Node m i f (Some qs) cs"] k1 l1)
  moreover have "length (find_arch_diffs iter s (Node m i f (Some ps) cs) pf diffs) =
        length (find_arch_diffs iter s (Node m i f (Some qs) cs) pf diffs)"
    by (simp add: find_arch_diffs_decomp[of iter s "Node m i f (Some ps) cs"]
        find_arch_diffs_decomp[of iter s "Node m i f (Some qs) cs"] k2 l2)
  ultimately show ?thesis
    using port_edit_norm[OF assms] ex
    by (simp add: pair_diffs_def node_mismatch_def get_or_def)
qed

theorem port_compare_insensitive_witness:
  "port_edit [''a : x'', ''b : y''] [''b : y'', ''a :x''] \<and>
   (pair_diffs (Node (Some ''M'') (Some ''U'') None (Some [''a : x'', ''b : y'']) None)
               (Node (Some ''M'') (Some ''U'') None (Some [''b:y'', ''a:x'']) None) None = []) \<and>
   (pair_diffs (Node (Some ''M'') (Some ''U'') None (Some [''b : y'', ''a :x'']) None)
               (Node (Some ''M'') (Some ''U'') None (Some [''b:y'', ''a:x'']) None) None = [])"
proof -
  have 1: "port_edit [''a : x'', ''b : y''] [''b : y'', ''a : x'']"
    by (rule port_edit.permute) simp
  have 2: "port_edit [''b : y'', ''a : x''] [''b : y'', ''a :x'']"
    using port_edit.remove_space[of "[''b : y'']" "''a :''" "''x''" "[]"] by simp
  have e: "port_edit [''a : x'', ''b : y''] [''b : y'', ''a :x'']"
    by (rule port_edit.both[OF 1 2])
  have "pair_diffs (Node (Some ''M'') (Some ''U'') None (Some [''a : x'', ''b : y'']) None)
               (Node (Some ''M'') (Some ''U'') None (Some [''b:y'', ''a:x'']) None) None = []"
    by (simp add: pair_diffs_def node_mismatch_def get_or_def ports_norm_def normalize_port_def)
  with port_compare_insensitive[OF e, of "Some ''M''" "Some ''U''" None None
       "Node (Some ''M'') (Some ''U'') None (Some [''b:y'', ''a:x'']) None" None]
       e
  show ?thesis by blast
qed


text \<open>
  Claim C3. The loop visits each key of the union once. For a key of the expected
  children only, the loop body appends exactly one record, whose actual side is
  \<open>Missing\<close>; for a key of the actual children only, exactly one record whose expected side
  is \<open>Missing\<close>. Either record is made of the module name, the key and the ports of the
  child alone: nothing below the child is visited, so its descendants add no record.
\<close>

theorem missing_instance_one_record:
  assumes "set_iteration iter"
  shows "find_arch_diffs iter s p pf diffs =
           diffs @ pair_diffs s p pf @
           concat (map (key_diffs iter s p)
             (iter (union_keys (get_or (Instances s) []) (get_or (Instances p) [])))) \<and>
         (\<forall>key sc. child_map (get_or (Instances s) []) key = Some sc \<and>
                   child_map (get_or (Instances p) []) key = None \<longrightarrow>
            count_list (iter (union_keys (get_or (Instances s) []) (get_or (Instances p) []))) key = 1 \<and>
            key_diffs iter s p key =
              [\<lparr>diff_file = current_file s p,
                SPEC = Present \<lparr>sum_Module_name = get_or (Module_name sc) [],
                                sum_Instance_name = key,
                                sum_Port = get_or (Port sc) []\<rparr>,
                Parsed = Missing\<rparr>]) \<and>
         (\<forall>key pc. child_map (get_or (Instances s) []) key = None \<and>
                   child_map (get_or (Instances p) []) key = Some pc \<longrightarrow>
            count_list (iter (union_keys (get_or (Instances s) []) (get_or (Instances p) []))) key = 1 \<and>
            key_diffs iter s p key =
              [\<lparr>diff_file = get_or (File_path pc) (current_file s p),
                SPEC = Missing,
                Parsed = Present \<lparr>sum_Module_name = get_or (Module_name pc) [],
                                  sum_Instance_name = key,
                                  sum_Port = get_or (Port pc) []\<rparr>\<rparr>])"
proof (intro conjI allI impI)
  show "find_arch_diffs iter s p pf diffs =
           diffs @ pair_diffs s p pf @
           concat (map (key_diffs iter s p)
             (iter (union_keys (get_or (Instances s) []) (get_or (Instances p) []))))"
    by (rule find_arch_diffs_decomp)
next
  fix key sc
  assume a: "child_map (get_or (Instances s) []) key = Some sc \<and>
             child_map (get_or (Instances p) []) key = None"
  then have "key \<in> set (union_keys (get_or (Instances s) []) (get_or (Instances p) []))"
    by (auto simp: set_union_keys dest: child_map_key)
  then show "count_list (iter (union_keys (get_or (Instances s) []) (get_or (Instances p) []))) key = 1"
    by (rule count_iter_union_keys[OF assms])
  from a show "key_diffs iter s p key =
              [\<lparr>diff_file = current_file s p,
                SPEC = Present \<lparr>sum_Module_name = get_or (Module_name sc) [],
                                sum_Instance_name = key,
                                sum_Port = get_or (Port sc) []\<rparr>,
                Parsed = Missing\<rparr>]"
    by (simp add: key_diffs_def missing_parsed_record_def)
next
  fix key pc
  assume a: "child_map (get_or (Instances s) []) key = None \<and>
             child_map (get_or (Instances p) []) key = Some pc"
  then have "key \<in> set (union_keys (get_or (Instances s) []) (get_or (Instances p) []))"
    by (auto simp: set_union_keys dest: child_map_key)
  then show "count_list (iter (union_keys (get_or (Instances s) []) (get_or (Instances p) []))) key = 1"
    by (rule count_iter_union_keys[OF assms])
  from a show "key_diffs iter s p key =
              [\<lparr>diff_file = get_or (File_path pc) (current_file s p),
                SPEC = Missing,
                Parsed = Present \<lparr>sum_Module_name = get_or (Module_name pc) [],
                                  sum_Instance_name = key,
                                  sum_Port = get_or (Port pc) []\<rparr>\<rparr>]"
    by (simp add: key_diffs_def missing_spec_record_def)
qed

text \<open>The second end-to-end scenario: the expected tree has a child U2 of ModB, with a
  subtree of its own, that the actual tree lacks; the actual tree has a child U3.\<close>

definition ex_expected_u2 :: node where
  "ex_expected_u2 = Node (Some ''Top'') (Some ''Top'') None (Some [])
     (Some [Node (Some ''ModB'') (Some ''U2'') None (Some [''q : w''])
              (Some [Node (Some ''Leaf'') (Some ''L1'') None (Some []) (Some [])])])"

definition ex_actual_u3 :: node where
  "ex_actual_u3 = Node (Some ''Top'') (Some ''Top'') (Some ''top.v'') (Some [])
     (Some [Node (Some ''ModC'') (Some ''U3'') (Some ''modc.v'') (Some [])
              (Some [Node (Some ''Leaf'') (Some ''L2'') (Some ''leaf.v'') (Some []) (Some [])])])"

theorem missing_instance_one_record_witness:
  "set_iteration rev \<and>
   find_arch_diffs rev ex_expected_u2 ex_actual_u3 None [] =
     [\<lparr>diff_file = ''modc.v'', SPEC = Missing,
       Parsed = Present \<lparr>sum_Module_name = ''ModC'', sum_Instance_name = Some ''U3'',
                         sum_Port = []\<rparr>\<rparr>,
      \<lparr>diff_file = ''top.v'',
       SPEC = Present \<lparr>sum_Module_name = ''ModB'', sum_Instance_name = Some ''U2'',
                       sum_Port = [''q : w'']\<rparr>,
       Parsed = Missing\<rparr>]"
proof -
  have it: "set_iteration rev" by (simp add: set_iteration_def)
  have u: "rev (union_keys (get_or (Instances ex_expected_u2) []) (get_or (Instances ex_actual_u3) []))
           = [Some ''U3'', Some ''U2'']"
    by (simp add: union_keys_def ex_expected_u2_def ex_actual_u3_def get_or_def)
  have s2: "child_map (get_or (Instances ex_expected_u2) []) (Some ''U2'') =
              Some (Node (Some ''ModB'') (Some ''U2'') None (Some [''q : w''])
              (Some [Node (Some ''Leaf'') (Some ''L1'') None (Some []) (Some [])]))"
           "child_map (get_or (Instances ex_actual_u3) []) (Some ''U2'') = None"
           "child_map (get_or (Instances ex_expected_u2) []) (Some ''U3'') = None"
           "child_map (get_or (Instances ex_actual_u3) []) (Some ''U3'') =
              Some (Node (Some ''ModC'') (Some ''U3'') (Some ''modc.v'') (Some [])
              (Some [Node (Some ''Leaf'') (Some ''L2'') (Some ''leaf.v'') (Some []) (Some [])]))"
    by (simp_all add: child_map_def ex_expected_u2_def ex_actual_u3_def get_or_def)
  have c: "current_file ex_expected_u2 ex_actual_u3 = ''top.v''"
    by (simp add: current_file_def ex_actual_u3_def get_or_def)
  have pd: "pair_diffs ex_expected_u2 ex_actual_u3 None = []"
    by (simp add: pair_diffs_def node_mismatch_def ex_expected_u2_def ex_actual_u3_def
        get_or_def ports_norm_def)
  note t = missing_instance_one_record[OF it, of ex_expected_u2 ex_actual_u3 None "[]"]
  from t have d: "find_arch_diffs rev ex_expected_u2 ex_actual_u3 None [] =
      pair_diffs ex_expected_u2 ex_actual_u3 None @
      concat (map (key_diffs rev ex_expected_u2 ex_actual_u3)
        (rev (union_keys (get_or (Instances ex_expected_u2) []) (get_or (Instances ex_actual_u3) []))))"
    by simp
  from t s2(1,2) have k2: "key_diffs rev ex_expected_u2 ex_actual_u3 (Some ''U2'') =
      [\<lparr>diff_file = current_file ex_expected_u2 ex_actual_u3,
        SPEC = Present \<lparr>sum_Module_name = ''ModB'', sum_Instance_name = Some ''U2'',
                       sum_Port = [''q : w'']\<rparr>,
        Parsed = Missing\<rparr>]"
    by (simp add: get_or_def)
  from t s2(3,4) have k3: "key_diffs rev ex_expected_u2 ex_actual_u3 (Some ''U3'') =
      [\<lparr>diff_file = ''modc.v'', SPEC = Missing,
        Parsed = Present \<lparr>sum_Module_name = ''ModC'', sum_Instance_name = Some ''U3'',
                         sum_Port = []\<rparr>\<rparr>]"
    by (simp add: get_or_def)
  show ?thesis
    by (simp add: it d u k2 k3 c pd)
qed


text \<open>
  Claim C10. The instance names of the two nodes of a pair play no part in the condition
  of line 34: when the module names are equal and the normalized, sorted ports are equal,
  no record is appended for the pair, whatever the two instance names are, and the output
  is the input list followed by what the child keys add.
\<close>

theorem instance_name_not_compared:
  assumes "get_or m [] = get_or m' []"
      and "ports_norm (get_or ps []) = ports_norm (get_or ps' [])"
  shows "pair_diffs (Node m i f ps cs) (Node m' i' f' ps' cs') pf = [] \<and>
         find_arch_diffs iter (Node m i f ps cs) (Node m' i' f' ps' cs') pf diffs =
           diffs @ concat (map (key_diffs iter (Node m i f ps cs) (Node m' i' f' ps' cs'))
             (iter (union_keys (get_or cs []) (get_or cs' [])))) \<and>
         node_mismatch (Node m j f ps cs) (Node m' j' f' ps' cs') =
           node_mismatch (Node m i f ps cs) (Node m' i' f' ps' cs')"
proof -
  have "pair_diffs (Node m i f ps cs) (Node m' i' f' ps' cs') pf = []"
    using assms by (simp add: pair_diffs_def node_mismatch_def)
  then show ?thesis
    using find_arch_diffs_decomp[of iter "Node m i f ps cs" "Node m' i' f' ps' cs'" pf diffs]
    by (simp add: node_mismatch_def)
qed

theorem instance_name_not_compared_witness:
  "get_or (Some ''ModA'') [] = get_or (Some ''ModA'') [] \<and>
   ports_norm (get_or (Some [''a : x'']) []) = ports_norm (get_or (Some [''a:x'']) []) \<and>
   find_arch_diffs (\<lambda>ks. ks)
     (Node (Some ''ModA'') (Some ''U1'') None (Some [''a : x'']) (Some []))
     (Node (Some ''ModA'') (Some ''Other'') None (Some [''a:x'']) (Some [])) None [] = []"
proof -
  have a: "get_or (Some ''ModA'') [] = get_or (Some ''ModA'') []" by simp
  have b: "ports_norm (get_or (Some [''a : x'']) []) = ports_norm (get_or (Some [''a:x'']) [])"
    by (simp add: get_or_def ports_norm_def normalize_port_def)
  from instance_name_not_compared[OF a b, where iter = "\<lambda>ks. ks" and i = "Some ''U1''"
      and f = None and cs = "Some []" and i' = "Some ''Other''" and f' = None
      and cs' = "Some []" and pf = None and diffs = "[]"]
  have "find_arch_diffs (\<lambda>ks. ks)
     (Node (Some ''ModA'') (Some ''U1'') None (Some [''a : x'']) (Some []))
     (Node (Some ''ModA'') (Some ''Other'') None (Some [''a:x'']) (Some [])) None [] = []"
    by (simp add: union_keys_def get_or_def)
  with a b show ?thesis by blast
qed

text \<open>An actual tree as the Extractor writes it when it knows no file: \<open>File_path\<close> is
  present and empty. The child U1 has another module than expected.\<close>

definition ex_nofile_expected :: node where
  "ex_nofile_expected = Node (Some ''Top'') (Some ''Top'') None (Some [])
     (Some [Node (Some ''ModA'') (Some ''U1'') None (Some []) (Some [])])"

definition ex_nofile_child :: node where
  "ex_nofile_child = Node (Some ''ModB'') (Some ''U1'') (Some []) (Some []) (Some [])"

definition ex_nofile_actual :: node where
  "ex_nofile_actual = Node (Some ''Top'') (Some ''Top'') (Some []) (Some [])
     (Some [ex_nofile_child])"

lemma ex_nofile_run:
  "find_arch_diffs (\<lambda>ks. ks) ex_nofile_expected ex_nofile_actual None [] =
     [\<lparr>diff_file = ''Top.v'',
       SPEC = Present \<lparr>sum_Module_name = ''ModA'', sum_Instance_name = Some ''U1'',
                       sum_Port = []\<rparr>,
       Parsed = Present \<lparr>sum_Module_name = ''ModB'', sum_Instance_name = Some ''U1'',
                       sum_Port = []\<rparr>\<rparr>]"
  by (simp add: find_arch_diffs_decomp key_diffs_def pair_diffs_def pair_record_def
      node_mismatch_def ex_nofile_expected_def ex_nofile_actual_def ex_nofile_child_def
      get_or_def union_keys_def child_map_def current_file_def current_node_file_def
      ports_norm_def)

text \<open>
  Claim C4, as stated, fails. The claim resolves the file of a record from the actual
  node's file, else the resolved file of the parent, else \<open>Top Level\<close>, and has that same
  resolved file handed down. Here neither actual node has a file: the root resolves to
  \<open>Top Level\<close>, so the record of U1 would be tagged \<open>Top Level\<close>; the code tags it \<open>Top.v\<close>,
  since what it hands down is \<open>current_file\<close> (lines 57 to 59), not the tag of lines 30 to 32.
\<close>

theorem parent_context_counterexample:
  "map diff_file (find_arch_diffs (\<lambda>ks. ks) ex_nofile_expected ex_nofile_actual None [])
     = [''Top.v''] \<and>
   current_node_file ex_nofile_actual None = ''Top Level'' \<and>
   current_node_file ex_nofile_child (Some (current_node_file ex_nofile_actual None))
     = ''Top Level''"
  by (simp add: ex_nofile_run)
     (simp add: current_node_file_def ex_nofile_actual_def ex_nofile_child_def get_or_def)

text \<open>
  Claim C4, amended. A record at a pair is tagged with the actual node's file if it is
  not empty, else with the parent file the call was given if that is not empty, else with
  \<open>Top Level\<close>. The parent file a call gives to the calls on its matched children is the
  actual node's file if not empty, else the actual module name followed by \<open>.v\<close>, else the
  expected module name followed by \<open>.v\<close>, else \<open>Unknown.v\<close>. A record for a key of the
  actual children only is tagged with the child's \<open>File_path\<close> when that is not empty, and
  with the parent file for the children when the child has no \<open>File_path\<close> field.
\<close>

theorem file_tag_rule:
  "find_arch_diffs iter s p pf diffs =
     diffs @ pair_diffs s p pf @
     concat (map (key_diffs iter s p)
       (iter (union_keys (get_or (Instances s) []) (get_or (Instances p) [])))) \<and>
   (\<forall>r \<in> set (pair_diffs s p pf).
      diff_file r =
        (if get_or (File_path p) [] \<noteq> [] then get_or (File_path p) []
         else if get_or pf [] \<noteq> [] then get_or pf []
         else ''Top Level'')) \<and>
   (\<forall>key sc pc. child_map (get_or (Instances s) []) key = Some sc \<and>
                child_map (get_or (Instances p) []) key = Some pc \<longrightarrow>
      key_diffs iter s p key =
        find_arch_diffs iter sc pc
          (Some (if get_or (File_path p) [] \<noteq> [] then get_or (File_path p) []
                 else if get_or (Module_name p) [] \<noteq> [] then get_or (Module_name p) [] @ ''.v''
                 else if get_or (Module_name s) [] \<noteq> [] then get_or (Module_name s) [] @ ''.v''
                 else ''Unknown.v'')) []) \<and>
   (\<forall>key pc. child_map (get_or (Instances s) []) key = None \<and>
             child_map (get_or (Instances p) []) key = Some pc \<longrightarrow>
      (File_path pc = None \<longrightarrow>
         map diff_file (key_diffs iter s p key) =
           [if get_or (File_path p) [] \<noteq> [] then get_or (File_path p) []
            else if get_or (Module_name p) [] \<noteq> [] then get_or (Module_name p) [] @ ''.v''
            else if get_or (Module_name s) [] \<noteq> [] then get_or (Module_name s) [] @ ''.v''
            else ''Unknown.v'']) \<and>
      (\<forall>fp. File_path pc = Some fp \<and> fp \<noteq> [] \<longrightarrow>
         map diff_file (key_diffs iter s p key) = [fp]))"
proof -
  have "find_arch_diffs iter s p pf diffs =
     diffs @ pair_diffs s p pf @
     concat (map (key_diffs iter s p)
       (iter (union_keys (get_or (Instances s) []) (get_or (Instances p) []))))"
    by (rule find_arch_diffs_decomp)
  moreover have "\<forall>r \<in> set (pair_diffs s p pf).
      diff_file r =
        (if get_or (File_path p) [] \<noteq> [] then get_or (File_path p) []
         else if get_or pf [] \<noteq> [] then get_or pf []
         else ''Top Level'')"
    by (simp add: pair_diffs_def pair_record_def current_node_file_def)
  ultimately show ?thesis
    by (simp add: key_diffs_def missing_spec_record_def current_file_def get_or_def)
qed

theorem file_tag_rule_witness:
  "child_map (get_or (Instances ex_nofile_expected) []) (Some ''U1'') =
     Some (Node (Some ''ModA'') (Some ''U1'') None (Some []) (Some [])) \<and>
   child_map (get_or (Instances ex_nofile_actual) []) (Some ''U1'') = Some ex_nofile_child \<and>
   key_diffs (\<lambda>ks. ks) ex_nofile_expected ex_nofile_actual (Some ''U1'') =
     find_arch_diffs (\<lambda>ks. ks) (Node (Some ''ModA'') (Some ''U1'') None (Some []) (Some []))
       ex_nofile_child (Some ''Top.v'') [] \<and>
   pair_diffs (Node (Some ''ModA'') (Some ''U1'') None (Some []) (Some []))
       ex_nofile_child (Some ''Top.v'') \<noteq> [] \<and>
   list_all (\<lambda>r. diff_file r = ''Top.v'')
     (pair_diffs (Node (Some ''ModA'') (Some ''U1'') None (Some []) (Some []))
       ex_nofile_child (Some ''Top.v''))"
proof -
  have s: "child_map (get_or (Instances ex_nofile_expected) []) (Some ''U1'') =
     Some (Node (Some ''ModA'') (Some ''U1'') None (Some []) (Some []))"
    by (simp add: child_map_def ex_nofile_expected_def get_or_def)
  have p: "child_map (get_or (Instances ex_nofile_actual) []) (Some ''U1'') = Some ex_nofile_child"
    by (simp add: child_map_def ex_nofile_actual_def ex_nofile_child_def get_or_def)
  have m: "get_or (File_path ex_nofile_actual) [] = []"
          "get_or (Module_name ex_nofile_actual) [] = ''Top''"
          "get_or (File_path ex_nofile_child) [] = []"
    by (simp_all add: ex_nofile_actual_def ex_nofile_child_def get_or_def)
  note t = file_tag_rule[of "\<lambda>ks. ks" ex_nofile_expected ex_nofile_actual None "[]"]
  from t s p have k: "key_diffs (\<lambda>ks. ks) ex_nofile_expected ex_nofile_actual (Some ''U1'') =
     find_arch_diffs (\<lambda>ks. ks) (Node (Some ''ModA'') (Some ''U1'') None (Some []) (Some []))
       ex_nofile_child (Some ''Top.v'') []"
    by (simp add: m)
  have n: "pair_diffs (Node (Some ''ModA'') (Some ''U1'') None (Some []) (Some []))
       ex_nofile_child (Some ''Top.v'') \<noteq> []"
    by (simp add: pair_diffs_def node_mismatch_def ex_nofile_child_def get_or_def)
  from file_tag_rule[of "\<lambda>ks. ks" "Node (Some ''ModA'') (Some ''U1'') None (Some []) (Some [])"
       ex_nofile_child "Some ''Top.v''" "[]"]
  have "list_all (\<lambda>r. diff_file r = ''Top.v'')
     (pair_diffs (Node (Some ''ModA'') (Some ''U1'') None (Some []) (Some []))
       ex_nofile_child (Some ''Top.v''))"
    by (simp add: m list_all_iff)
  with s p k n show ?thesis by blast
qed


subsection \<open>run\_compare\<close>

text \<open>
  \<open>run_compare\<close> after the two calls of \<open>load_json\<close>: \<open>spec_data\<close> and \<open>parsed_data\<close> are what
  they return, \<open>None\<close> when the file could not be read or parsed, where \<open>load_json\<close> calls
  \<^verbatim>\<open>sys.exit(1)\<close>; the expected tree is loaded first. \<open>write_ok\<close> tells whether the report
  file can be opened and written (lines 101 and 102); if not, the error of the write leaves
  \<open>run_compare\<close>, which does not handle it. The result \<open>Inr diffs\<close> is the list written under
  \<open>Diff_Arch\<close>, and stands for the return value \<open>True\<close>.
\<close>

datatype error = SystemExit nat | OSError

definition run_compare ::
  "(string option list \<Rightarrow> string option list) \<Rightarrow> node option \<Rightarrow> node option \<Rightarrow> bool \<Rightarrow>
   error + diff list" where
  "run_compare iter spec_data parsed_data write_ok =
     (case spec_data of
        None \<Rightarrow> Inl (SystemExit 1)
      | Some spec_node \<Rightarrow>
          (case parsed_data of
             None \<Rightarrow> Inl (SystemExit 1)
           | Some parsed_node \<Rightarrow>
               (let diffs = find_arch_diffs iter spec_node parsed_node None []
                in if write_ok then Inr diffs else Inl OSError)))"

text \<open>
  A well-formed Tree Model in the sense of the specification: every node has the fields
  \<open>Module_name\<close>, \<open>Instance_name\<close>, \<open>Port\<close> and \<open>Instances\<close>.
\<close>

fun well_formed :: "node \<Rightarrow> bool" where
  "well_formed (Node m i f ps cs) \<longleftrightarrow>
     m \<noteq> None \<and> i \<noteq> None \<and> ps \<noteq> None \<and>
     (case cs of None \<Rightarrow> False | Some l \<Rightarrow> list_all well_formed l)"

text \<open>
  A tree with the three fields that the source reads with a default written out where
  they are absent: the empty string for \<open>Module_name\<close>, the empty list for \<open>Port\<close> and for
  \<open>Instances\<close>, in every node. \<open>Instance_name\<close> and \<open>File_path\<close> are left as they are: the
  source reads the instance name of a child without a default, and the file of a child
  with another default than the empty string.
\<close>

fun with_defaults :: "node \<Rightarrow> node" where
  "with_defaults (Node m i f ps cs) =
     Node (Some (get_or m [])) i f (Some (get_or ps []))
       (Some (case cs of None \<Rightarrow> [] | Some l \<Rightarrow> map with_defaults l))"

lemma with_defaults_fields [simp]:
  "get_or (Module_name (with_defaults n)) [] = get_or (Module_name n) []"
  "get_or (Port (with_defaults n)) [] = get_or (Port n) []"
  "Instance_name (with_defaults n) = Instance_name n"
  "File_path (with_defaults n) = File_path n"
  "get_or (Instances (with_defaults n)) [] = map with_defaults (get_or (Instances n) [])"
  by (cases n; simp add: get_or_def split: option.splits)+

lemma child_map_with_defaults:
  "child_map (map with_defaults cs) key = map_option with_defaults (child_map cs key)"
proof -
  have "map_of (map (\<lambda>c. (Instance_name c, c)) (map with_defaults xs)) key =
        map_option with_defaults (map_of (map (\<lambda>c. (Instance_name c, c)) xs) key)" for xs
    by (induction xs) simp_all
  from this[of "rev cs"] show ?thesis
    by (simp add: child_map_def rev_map)
qed

lemma with_defaults_well_formed: "well_formed n \<Longrightarrow> with_defaults n = n"
proof (induction n rule: well_formed.induct)
  case (1 m i f ps cs)
  then obtain l where l: "cs = Some l" "list_all well_formed l"
    by (cases cs) auto
  with "1.IH" have "map with_defaults l = l"
    by (simp add: list_all_iff map_idI)
  with 1 l show ?case by auto
qed

lemma find_arch_diffs_with_defaults:
  "find_arch_diffs iter (with_defaults s) (with_defaults p) pf diffs =
   find_arch_diffs iter s p pf diffs"
proof (induction "size s" arbitrary: s p pf diffs rule: less_induct)
  case less
  let ?sc = "get_or (Instances s) []" and ?pc = "get_or (Instances p) []"
  have cur: "current_file (with_defaults s) (with_defaults p) = current_file s p"
    by (simp add: current_file_def)
  have pd: "pair_diffs (with_defaults s) (with_defaults p) pf = pair_diffs s p pf"
    by (simp add: pair_diffs_def node_mismatch_def pair_record_def current_node_file_def)
  have uk: "union_keys (map with_defaults ?sc) (map with_defaults ?pc) = union_keys ?sc ?pc"
    by (simp add: union_keys_def comp_def)
  have kd: "key_diffs iter (with_defaults s) (with_defaults p) key = key_diffs iter s p key" for key
  proof (cases "child_map ?sc key")
    case None
    then show ?thesis
      by (simp add: key_diffs_def child_map_with_defaults cur missing_spec_record_def
          split: option.splits)
  next
    case (Some sc)
    then have "size sc < size s"
      by (auto dest!: child_map_in_set simp: child_smaller)
    from less[OF this] Some show ?thesis
      by (simp add: key_diffs_def child_map_with_defaults cur missing_parsed_record_def
          split: option.splits)
  qed
  then have "key_diffs iter (with_defaults s) (with_defaults p) = key_diffs iter s p"
    by (rule ext)
  then show ?case
    by (simp add: find_arch_diffs_decomp[of iter "with_defaults s"]
        find_arch_diffs_decomp[of iter s] pd uk)
qed

text \<open>
  Claim C7, as stated, fails: an expected tree that lacks \<open>Instance_name\<close>, \<open>Port\<close> and
  \<open>Instances\<close> is compared without any failure, the absent fields read as empty.
\<close>

theorem missing_fields_counterexample:
  "\<not> well_formed (Node (Some ''Top'') None None None None) \<and>
   well_formed ex_actual \<and>
   run_compare (\<lambda>ks. ks) (Some (Node (Some ''Top'') None None None None)) (Some ex_actual) True =
     Inr [\<lparr>diff_file = ''moda.v'', SPEC = Missing,
            Parsed = Present \<lparr>sum_Module_name = ''ModA'', sum_Instance_name = Some ''U1'',
                              sum_Port = [''p2:b'', ''p1:a'']\<rparr>\<rparr>]"
  by (simp add: run_compare_def ex_actual_def find_arch_diffs_decomp key_diffs_def
      pair_diffs_def node_mismatch_def union_keys_def child_map_def missing_spec_record_def
      ports_norm_def)

text \<open>
  Claim C7, amended, for trees whose present fields have the types of the Tree Model.
  A missing field is no failure: once both files are loaded and the report can be
  written, \<open>run_compare\<close> returns the report of the two trees in which every absent
  \<open>Module_name\<close>, \<open>Port\<close> and \<open>Instances\<close> is written out as the empty string or the empty
  list. A well-formed tree has nothing to write out, so well-formed input gives the
  report of the input itself; two trees with the same module name and no ports and no
  children give the empty report. The failures of \<open>run_compare\<close> lie outside the
  comparison: the exit of \<open>load_json\<close> with status 1 on a file that cannot be loaded, and
  the error of a report file that cannot be written.
\<close>

theorem missing_fields_read_as_defaults:
  "run_compare iter (Some s) (Some p) True =
     Inr (find_arch_diffs iter (with_defaults s) (with_defaults p) None []) \<and>
   (well_formed s \<and> well_formed p \<longrightarrow>
      with_defaults s = s \<and> with_defaults p = p \<and>
      run_compare iter (Some s) (Some p) True = Inr (find_arch_diffs iter s p None [])) \<and>
   run_compare iter (Some (Node m i f (Some []) (Some [])))
                    (Some (Node m i' f' (Some []) (Some []))) True = Inr [] \<and>
   run_compare iter None parsed_data write_ok = Inl (SystemExit 1) \<and>
   run_compare iter spec_data None write_ok = Inl (SystemExit 1) \<and>
   run_compare iter (Some s) (Some p) False = Inl OSError"
proof -
  have 1: "run_compare iter (Some s) (Some p) True =
     Inr (find_arch_diffs iter (with_defaults s) (with_defaults p) None [])"
    by (simp add: run_compare_def find_arch_diffs_with_defaults)
  have 2: "well_formed s \<and> well_formed p \<longrightarrow>
      with_defaults s = s \<and> with_defaults p = p \<and>
      run_compare iter (Some s) (Some p) True = Inr (find_arch_diffs iter s p None [])"
    by (simp add: with_defaults_well_formed run_compare_def)
  have 3: "run_compare iter (Some (Node m i f (Some []) (Some [])))
                    (Some (Node m i' f' (Some []) (Some []))) True = Inr []"
    by (simp add: run_compare_def find_arch_diffs_decomp pair_diffs_def node_mismatch_def
        union_keys_def key_diffs_def child_map_def)
  have 4: "run_compare iter None parsed_data write_ok = Inl (SystemExit 1)"
          "run_compare iter spec_data None write_ok = Inl (SystemExit 1)"
          "run_compare iter (Some s) (Some p) False = Inl OSError"
    by (simp_all add: run_compare_def split: option.splits)
  from 1 2 3 4 show ?thesis by blast
qed

theorem missing_fields_read_as_defaults_witness:
  "well_formed ex_expected \<and> well_formed ex_actual_port \<and>
   with_defaults (Node (Some ''Top'') None None None None) =
     Node (Some ''Top'') None None (Some []) (Some []) \<and>
   run_compare (\<lambda>ks. ks) (Some ex_expected) (Some ex_actual_port) True =
     Inr [\<lparr>diff_file = ''moda.v'',
            SPEC = Present \<lparr>sum_Module_name = ''ModA'', sum_Instance_name = Some ''U1'',
                            sum_Port = [''p1 : a'', ''p2 : b'']\<rparr>,
            Parsed = Present \<lparr>sum_Module_name = ''ModA'', sum_Instance_name = Some ''U1'',
                              sum_Port = [''p2:b'', ''p3:a'']\<rparr>\<rparr>] \<and>
   run_compare (\<lambda>ks. ks) (Some (Node None None None None None)) (Some ex_actual_port) True =
     run_compare (\<lambda>ks. ks) (Some (Node (Some []) None None (Some []) (Some [])))
       (Some ex_actual_port) True \<and>
   run_compare (\<lambda>ks. ks) (Some (Node (Some ''Top'') (Some ''Top'') None (Some []) (Some [])))
     (Some (Node (Some ''Top'') (Some ''Top'') (Some ''top.v'') (Some []) (Some []))) True = Inr []"
proof -
  have w: "well_formed ex_expected" "well_formed ex_actual_port"
    by (simp_all add: ex_expected_def ex_actual_port_def)
  have d: "with_defaults (Node (Some ''Top'') None None None None) =
     Node (Some ''Top'') None None (Some []) (Some [])"
    by simp
  have r: "find_arch_diffs (\<lambda>ks. ks) ex_expected ex_actual_port None [] =
     [\<lparr>diff_file = ''moda.v'',
       SPEC = Present \<lparr>sum_Module_name = ''ModA'', sum_Instance_name = Some ''U1'',
                       sum_Port = [''p1 : a'', ''p2 : b'']\<rparr>,
       Parsed = Present \<lparr>sum_Module_name = ''ModA'', sum_Instance_name = Some ''U1'',
                         sum_Port = [''p2:b'', ''p3:a'']\<rparr>\<rparr>]"
    by (simp add: find_arch_diffs_decomp key_diffs_def pair_diffs_def pair_record_def
        node_mismatch_def ex_expected_def ex_actual_port_def union_keys_def child_map_def
        current_file_def current_node_file_def ports_norm_def normalize_port_def)
  from missing_fields_read_as_defaults[of "\<lambda>ks. ks" ex_expected ex_actual_port] w r
  have a: "run_compare (\<lambda>ks. ks) (Some ex_expected) (Some ex_actual_port) True =
     Inr [\<lparr>diff_file = ''moda.v'',
            SPEC = Present \<lparr>sum_Module_name = ''ModA'', sum_Instance_name = Some ''U1'',
                            sum_Port = [''p1 : a'', ''p2 : b'']\<rparr>,
            Parsed = Present \<lparr>sum_Module_name = ''ModA'', sum_Instance_name = Some ''U1'',
                              sum_Port = [''p2:b'', ''p3:a'']\<rparr>\<rparr>]"
    by simp
  have wp: "with_defaults ex_actual_port = ex_actual_port"
    using w(2) by (rule with_defaults_well_formed)
  from missing_fields_read_as_defaults[of "\<lambda>ks. ks" "Node None None None None None" ex_actual_port]
       missing_fields_read_as_defaults[of "\<lambda>ks. ks" "Node (Some []) None None (Some []) (Some [])"
         ex_actual_port]
  have b: "run_compare (\<lambda>ks. ks) (Some (Node None None None None None)) (Some ex_actual_port) True =
     run_compare (\<lambda>ks. ks) (Some (Node (Some []) None None (Some []) (Some [])))
       (Some ex_actual_port) True"
    by simp
  from missing_fields_read_as_defaults[of "\<lambda>ks. ks" _ _ "Some ''Top''" "Some ''Top''" None
      "Some ''Top''" "Some ''top.v''"]
  have c: "run_compare (\<lambda>ks. ks) (Some (Node (Some ''Top'') (Some ''Top'') None (Some []) (Some [])))
     (Some (Node (Some ''Top'') (Some ''Top'') (Some ''top.v'') (Some []) (Some []))) True = Inr []"
    by blast
  from w d a b c show ?thesis by blast
qed

section \<open>Hierarchy Extractor (framework/extractor.py)\<close>

text \<open>
  What \<open>parse_xml_module_hierarchy\<close> returns: per module its instances (name and type), the
  top flag, the file and, once it has an instance, the connections of each instance; the
  declared ports per module; the names of the modules flagged as top. A Python dict keeps
  the order of insertion, so each dict is a list of pairs with distinct keys.
\<close>

record submodule =
  sub_name :: string
  sub_type :: string

record connection =
  conn_port :: string
  conn_direction :: string
  connected_to :: "string list"

record port_decl =
  port_name :: string
  port_direction :: string
  port_type :: string

record module_info =
  submodules :: "submodule list"
  top_flag :: bool
  file_path :: string
  connections :: "(string \<times> connection list) list option"

record hierarchy_data =
  hierarchy :: "(string \<times> module_info) list"
  ports :: "(string \<times> port_decl list) list"
  top_modules :: "string list"

text \<open>\<^verbatim>\<open>sep.join(xs)\<close>\<close>

definition join :: "string \<Rightarrow> string list \<Rightarrow> string" where
  "join sep xs = (case xs of [] \<Rightarrow> [] | y # ys \<Rightarrow> y @ concat (map (\<lambda>z. sep @ z) ys))"

text \<open>
  The three drawing strings of \<open>print_module_hierarchy\<close>, in UTF-8: the corner and the tee,
  each followed by two dashes and a space, and the bar followed by three spaces.
\<close>

definition branch_last :: string where
  "branch_last = [CHR 0xE2, CHR 0x94, CHR 0x94, CHR 0xE2, CHR 0x94, CHR 0x80,
                  CHR 0xE2, CHR 0x94, CHR 0x80, CHR '' '']"

definition branch_mid :: string where
  "branch_mid = [CHR 0xE2, CHR 0x94, CHR 0x9C, CHR 0xE2, CHR 0x94, CHR 0x80,
                 CHR 0xE2, CHR 0x94, CHR 0x80, CHR '' '']"

definition indent_bar :: string where
  "indent_bar = [CHR 0xE2, CHR 0x94, CHR 0x82, CHR '' '', CHR '' '', CHR '' '']"

text \<open>
  \<open>print_module_hierarchy\<close> returns the lines it prints. The source recurses into the type
  of every instance with no record of the modules already on the path, so the depth of
  the recursion is not bounded by the data: \<open>fuel\<close> is the recursion depth Python allows,
  and \<open>None\<close> is the \<open>RecursionError\<close> raised when it is used up.
\<close>

fun print_module_hierarchy ::
  "nat \<Rightarrow> hierarchy_data \<Rightarrow> string \<Rightarrow> nat \<Rightarrow> string \<Rightarrow> string list option" where
  "print_module_hierarchy 0 hierarchy_data module_name level indent = None"
| "print_module_hierarchy (Suc fuel) hierarchy_data module_name level indent =
     (let header = (if level = 0 then [module_name] else []);
          indent = (if level = 0 then [] else indent)
      in case map_of (hierarchy hierarchy_data) module_name of
           None \<Rightarrow> Some header
         | Some module_inf \<Rightarrow>
             map_option (\<lambda>ls. header @ concat ls)
               (those (map (\<lambda>sub.
                  let line = (if sub = last (submodules module_inf)
                              then indent @ branch_last @ sub_name sub @ ''('' @ sub_type sub @ '')''
                              else indent @ branch_mid @ sub_name sub @ ''('' @ sub_type sub @ '')'')
                  in if sub_type sub \<in> fst ` set (hierarchy hierarchy_data)
                     then map_option (\<lambda>rest. line # rest)
                            (print_module_hierarchy fuel hierarchy_data (sub_type sub) (level + 1)
                               (if sub = last (submodules module_inf)
                                then indent @ ''    '' else indent @ indent_bar))
                     else Some [line])
                (submodules module_inf))))"

text \<open>
  \<open>build_structure\<close> of \<open>export_hierarchy_to_json\<close>, the tree written as JSON, with the same
  fuel. \<open>conns = None\<close> is the root call, which has no connections.
\<close>

fun build_structure ::
  "nat \<Rightarrow> hierarchy_data \<Rightarrow> string \<Rightarrow> string \<Rightarrow> connection list option \<Rightarrow> node option" where
  "build_structure 0 hierarchy_data module_name instance_name conns = None"
| "build_structure (Suc fuel) hierarchy_data module_name instance_name conns =
     (let fpath = (case map_of (hierarchy hierarchy_data) module_name of
                     None \<Rightarrow> [] | Some module_inf \<Rightarrow> file_path module_inf);
          port = (case conns of
                    None \<Rightarrow> (case map_of (ports hierarchy_data) module_name of
                                None \<Rightarrow> [] | Some ps \<Rightarrow> map port_name ps)
                  | Some cs \<Rightarrow> map (\<lambda>conn. conn_port conn @ '' : '' @ join '', '' (connected_to conn)) cs)
      in case map_of (hierarchy hierarchy_data) module_name of
           None \<Rightarrow> Some (Node (Some module_name) (Some instance_name) (Some fpath) (Some port) (Some []))
         | Some module_inf \<Rightarrow>
             map_option (\<lambda>children.
                 Node (Some module_name) (Some instance_name) (Some fpath) (Some port) (Some children))
               (those (map (\<lambda>sub.
                  build_structure fuel hierarchy_data (sub_type sub) (sub_name sub)
                    (Some (case map_of (get_or (connections module_inf) []) (sub_name sub) of
                             None \<Rightarrow> [] | Some c \<Rightarrow> c)))
                (submodules module_inf))))"

text \<open>A design whose module \<open>A\<close> has an instance \<open>u\<close> of \<open>A\<close> itself.\<close>

definition self_design :: hierarchy_data where
  "self_design = \<lparr>hierarchy = [(''A'', \<lparr>submodules = [\<lparr>sub_name = ''u'', sub_type = ''A''\<rparr>],
                                        top_flag = True, file_path = ''a.v'',
                                        connections = Some [(''u'', [])]\<rparr>)],
                   ports = [], top_modules = [''A'']\<rparr>"

lemma print_self: "print_module_hierarchy fuel self_design ''A'' level indent = None"
  by (induction fuel arbitrary: level indent) (simp_all add: self_design_def Let_def)

lemma build_self: "build_structure fuel self_design ''A'' inst conns = None"
  by (induction fuel arbitrary: inst conns) (simp_all add: self_design_def Let_def)


subsection \<open>Top module detection (run\_extract)\<close>









section \<open>Properties of the Extractor\<close>















text \<open>A design without self-instantiation: \<open>Top\<close> has one instance \<open>U1\<close> of \<open>ModA\<close>.\<close>

definition ex_design :: hierarchy_data where
  "ex_design =
     \<lparr>hierarchy =
        [(''Top'', \<lparr>submodules = [\<lparr>sub_name = ''U1'', sub_type = ''ModA''\<rparr>],
                    top_flag = False, file_path = ''top.v'',
                    connections = Some [(''U1'', [\<lparr>conn_port = ''p1'', conn_direction = ''in'',
                                                    connected_to = [''a'', ''b'']\<rparr>])]\<rparr>),
         (''ModA'', \<lparr>submodules = [], top_flag = False, file_path = ''moda.v'',
                     connections = None\<rparr>)],
      ports = [(''Top'', [\<lparr>port_name = ''clk'', port_direction = ''input'',
                            port_type = ''logic''\<rparr>])],
      top_modules = []\<rparr>"

lemma build_structure_ex:
  "build_structure (Suc (Suc 0)) ex_design ''Top'' ''Top'' None =
     Some (Node (Some ''Top'') (Some ''Top'') (Some ''top.v'') (Some [''clk''])
       (Some [Node (Some ''ModA'') (Some ''U1'') (Some ''moda.v'') (Some [''p1 : a, b''])
                (Some [])]))"
  by (simp add: ex_design_def Let_def join_def)

lemma print_module_hierarchy_ex:
  "print_module_hierarchy (Suc (Suc 0)) ex_design ''Top'' 0 [] =
     Some [''Top'', branch_last @ ''U1(ModA)'']"
  by (simp add: ex_design_def Let_def)

text \<open>
  Claim C5 fails on the code for hierarchy printing and JSON export. On the design whose
  module \<open>A\<close> instantiates itself, neither \<open>print_module_hierarchy\<close> nor \<open>build_structure\<close>
  returns, whatever recursion depth is allowed: the walk is not cut at the repeated
  module. (On the design above, two levels are enough for both.)
\<close>

theorem self_instantiation_unbounded:
  "print_module_hierarchy fuel self_design ''A'' level indent = None \<and>
   build_structure fuel self_design ''A'' instance_name conns = None"
  by (simp add: print_self build_self)


section \<open>Repair Orchestrator (archer.py)\<close>

text \<open>
  \<open>main\<close> of \<open>archer.py\<close>. The tools it calls are not part of the program: each one is a
  function of the world the run takes place in, indexed by the iteration \<open>i\<close> of the loop
  (the language model by the number of calls made so far). \<open>step2_parse_rtl\<close> is the return
  value of that function; \<open>step3_compare\<close> is the outcome of \<open>step3_compare\<close>, which returns
  \<open>True\<close> or \<open>False\<close>, or leaves the program through the \<^verbatim>\<open>sys.exit\<close> of \<open>load_json\<close>, which its
  handler for \<open>Exception\<close> does not catch; \<open>diff_json_exists\<close> and \<open>diffs_at\<close> are the existence
  of the report file and the list it holds under \<open>Diff_Arch\<close>; \<open>check_sim_pass\<close> is the verdict
  read from the log after \<^verbatim>\<open>make all\<close>. \<open>get_llm_fix\<close> returns the text of the answer, or
  \<open>None\<close> when the request raises inside its handler, or raises itself when the client
  cannot be made, which happens before the handler is entered.
\<close>

text \<open>
  What a run does to the outside, in order: a backup copy of a file (with the content
  copied), a file overwritten (with the new content), and a run of the simulation
  \<^verbatim>\<open>make all\<close> in iteration \<open>i\<close>.
\<close>

datatype event = Backup string string | Write_file string string | Simulate nat

datatype compare_result = Compared | Compare_failed | Compare_exit

datatype llm_result = Llm_raises | No_fix | Fix string

record world =
  step2_parse_rtl :: "nat \<Rightarrow> bool"
  step3_compare :: "nat \<Rightarrow> compare_result"
  diff_json_exists :: "nat \<Rightarrow> bool"
  diffs_at :: "nat \<Rightarrow> diff list"
  get_llm_fix :: "nat \<Rightarrow> diff \<Rightarrow> string \<Rightarrow> llm_result"
  check_sim_pass :: "nat \<Rightarrow> bool"

text \<open>
  The state of a run: the text files by path, the number of requests made to the language
  model, and the events so far. The tools are taken to leave the files that the repair
  step reads and writes as they are, and every path to name a text file that can be
  read and written. Paths are compared as strings.
\<close>

record run_state =
  files :: "string \<rightharpoonup> string"
  llm_calls :: nat
  trace :: "event list"

datatype outcome = Spec_parse_failed | Rtl_parse_failed | Comparison_failed | Comparison_exited
  | Diff_file_missing | Sim_passed_no_diffs | Sim_failed_no_diffs | Llm_call_raised
  | No_files_modified | Sim_passed_after_fix | Max_iter_reached

definition MAX_ITER :: nat where
  "MAX_ITER = 5"

text \<open>\<^verbatim>\<open>if new_content:\<close> holds for a string that is not empty.\<close>

definition usable :: "llm_result \<Rightarrow> bool" where
  "usable new_content \<longleftrightarrow> (case new_content of Fix c \<Rightarrow> c \<noteq> [] | _ \<Rightarrow> False)"

definition fix_text :: "llm_result \<Rightarrow> string" where
  "fix_text new_content = (case new_content of Fix c \<Rightarrow> c | _ \<Rightarrow> [])"

text \<open>
  The body of the loop over the diff records (lines 178 to 206), on the state and the list
  \<open>modified_files\<close>. \<open>None\<close> is the exception of \<open>get_llm_fix\<close>, which ends the program.
\<close>

definition fix_diff ::
  "world \<Rightarrow> diff \<Rightarrow> run_state \<times> string list \<Rightarrow> (run_state \<times> string list) option" where
  "fix_diff w d sm =
     (let st = fst sm; modified_files = snd sm; file_path = diff_file d in
      if file_path = [] \<or> file_path \<notin> dom (files st) then Some (st, modified_files)
      else
        let original_content = the (files st file_path);
            new_content = get_llm_fix w (llm_calls st) d original_content;
            st1 = st\<lparr>llm_calls := Suc (llm_calls st)\<rparr>
        in if new_content = Llm_raises then None
           else if usable new_content then
             let backup_path = file_path @ ''.bak'';
                 st2 = (if backup_path \<notin> dom (files st1)
                        then st1\<lparr>files := (files st1)(backup_path \<mapsto> original_content),
                                 trace := trace st1 @ [Backup file_path original_content]\<rparr>
                        else st1);
                 st3 = st2\<lparr>files := (files st2)(file_path \<mapsto> fix_text new_content),
                           trace := trace st2 @ [Write_file file_path (fix_text new_content)]\<rparr>
             in Some (st3, modified_files @ [file_path])
           else Some (st1, modified_files))"

text \<open>The loop itself: \<open>False\<close> when an exception ended it, with the state reached.\<close>

fun fix_agent ::
  "world \<Rightarrow> diff list \<Rightarrow> run_state \<times> string list \<Rightarrow> bool \<times> run_state \<times> string list" where
  "fix_agent w [] sm = (True, sm)"
| "fix_agent w (d # ds) sm =
     (case fix_diff w d sm of
        None \<Rightarrow> (False, sm)
      | Some sm1 \<Rightarrow> fix_agent w ds sm1)"

text \<open>
  The loop \<^verbatim>\<open>for i in range(MAX_ITER)\<close> (lines 138 to 225) with \<open>remaining\<close> iterations to go,
  and how the run ends.
\<close>

fun iterate :: "world \<Rightarrow> nat \<Rightarrow> nat \<Rightarrow> run_state \<Rightarrow> outcome \<times> run_state" where
  "iterate w 0 i st = (Max_iter_reached, st)"
| "iterate w (Suc remaining) i st =
     (if \<not> step2_parse_rtl w i then (Rtl_parse_failed, st)
      else if step3_compare w i = Compare_failed then (Comparison_failed, st)
      else if step3_compare w i = Compare_exit then (Comparison_exited, st)
      else if \<not> diff_json_exists w i then (Diff_file_missing, st)
      else if diffs_at w i = [] then
        (if check_sim_pass w i
         then (Sim_passed_no_diffs, st\<lparr>trace := trace st @ [Simulate i]\<rparr>)
         else (Sim_failed_no_diffs, st\<lparr>trace := trace st @ [Simulate i]\<rparr>))
      else
        (case fix_agent w (diffs_at w i) (st, []) of
           (completed, st1, modified_files) \<Rightarrow>
             if \<not> completed then (Llm_call_raised, st1)
             else if modified_files = [] then (No_files_modified, st1)
             else if check_sim_pass w i
               then (Sim_passed_after_fix, st1\<lparr>trace := trace st1 @ [Simulate i]\<rparr>)
               else iterate w remaining (Suc i) (st1\<lparr>trace := trace st1 @ [Simulate i]\<rparr>)))"

definition main :: "world \<Rightarrow> bool \<Rightarrow> (string \<rightharpoonup> string) \<Rightarrow> outcome \<times> run_state" where
  "main w step1_parse_spec files0 =
     (if \<not> step1_parse_spec
      then (Spec_parse_failed, \<lparr>files = files0, llm_calls = 0, trace = []\<rparr>)
      else iterate w MAX_ITER 0 \<lparr>files = files0, llm_calls = 0, trace = []\<rparr>)"

declare iterate.simps [simp del]

text \<open>
  The paths that some diff record of the run names, and the backup events of one file in
  a trace.
\<close>

definition repair_targets :: "world \<Rightarrow> string set" where
  "repair_targets w = {f. \<exists>j d. d \<in> set (diffs_at w j) \<and> diff_file d = f}"

definition backups_of :: "string \<Rightarrow> event list \<Rightarrow> event list" where
  "backups_of p tr = filter (\<lambda>e. case e of Backup q c \<Rightarrow> q = p | _ \<Rightarrow> False) tr"

text \<open>
  A run on one diff record for the file \<open>a.v\<close>, with a language model that always gives
  the same answer and a simulation that always gives the same verdict; and a run in which
  the first repair does not make the simulation pass and the second one does.
\<close>

definition ex_diff :: "string \<Rightarrow> diff" where
  "ex_diff f = \<lparr>diff_file = f,
               SPEC = Present \<lparr>sum_Module_name = ''ModB'', sum_Instance_name = Some ''U2'',
                               sum_Port = []\<rparr>,
               Parsed = Missing\<rparr>"

definition ex_world :: "llm_result \<Rightarrow> bool \<Rightarrow> world" where
  "ex_world answer sim =
     \<lparr>step2_parse_rtl = (\<lambda>i. True), step3_compare = (\<lambda>i. Compared),
      diff_json_exists = (\<lambda>i. True), diffs_at = (\<lambda>i. [ex_diff ''a.v'']),
      get_llm_fix = (\<lambda>n d content. answer), check_sim_pass = (\<lambda>i. sim)\<rparr>"

definition ex_world_retry :: world where
  "ex_world_retry =
     \<lparr>step2_parse_rtl = (\<lambda>i. True), step3_compare = (\<lambda>i. Compared),
      diff_json_exists = (\<lambda>i. True), diffs_at = (\<lambda>i. [ex_diff ''a.v'']),
      get_llm_fix = (\<lambda>n d content. if n = 0 then Fix ''C'' else Fix ''D''),
      check_sim_pass = (\<lambda>i. 1 \<le> i)\<rparr>"

section \<open>Properties of the Orchestrator\<close>

text \<open>
  A property of the state that every step of the repair loop and every simulation run
  keeps, holds at the end of the run.
\<close>

lemma fix_agent_invariant:
  assumes step: "\<And>d st m st1 m1. d \<in> set diffs \<Longrightarrow> Q st \<Longrightarrow>
                   fix_diff w d (st, m) = Some (st1, m1) \<Longrightarrow> Q st1"
      and init: "Q st"
  shows "Q (fst (snd (fix_agent w diffs (st, m))))"
proof -
  have "Q (fst (snd (fix_agent w ds (s, m))))" if "set ds \<subseteq> set diffs" "Q s" for ds s m
    using that
  proof (induction ds arbitrary: s m)
    case Nil
    then show ?case by simp
  next
    case (Cons d ds)
    show ?case
    proof (cases "fix_diff w d (s, m)")
      case None
      with Cons.prems show ?thesis by simp
    next
      case (Some sm1)
      obtain s1 m1 where sm1: "sm1 = (s1, m1)" by (cases sm1)
      from Cons.prems step[of d s m s1 m1] Some sm1 have "Q s1" by simp
      with Cons.IH[of s1 m1] Cons.prems(1) Some sm1 show ?thesis by simp
    qed
  qed
  with init show ?thesis by simp
qed

lemma iterate_invariant:
  assumes step: "\<And>j d st m st1 m1. d \<in> set (diffs_at w j) \<Longrightarrow> Q st \<Longrightarrow>
                   fix_diff w d (st, m) = Some (st1, m1) \<Longrightarrow> Q st1"
      and sim: "\<And>st j. Q st \<Longrightarrow> Q (st\<lparr>trace := trace st @ [Simulate j]\<rparr>)"
      and init: "Q st"
  shows "Q (snd (iterate w k i st))"
  using init
proof (induction k arbitrary: i st)
  case 0
  then show ?case by (simp add: iterate.simps)
next
  case (Suc k)
  obtain c s1 m1 where r: "fix_agent w (diffs_at w i) (st, []) = (c, s1, m1)"
    by (cases "fix_agent w (diffs_at w i) (st, [])")
  have "Q (fst (snd (fix_agent w (diffs_at w i) (st, []))))"
    by (rule fix_agent_invariant[where Q = Q, OF step Suc.prems])
  with r have q1: "Q s1" by simp
  from sim[OF q1] have q2: "Q (s1\<lparr>trace := trace s1 @ [Simulate i]\<rparr>)" .
  from Suc.IH[OF q2] have q3: "Q (snd (iterate w k (Suc i) (s1\<lparr>trace := trace s1 @ [Simulate i]\<rparr>)))" .
  from sim[OF Suc.prems] have q0: "Q (st\<lparr>trace := trace st @ [Simulate i]\<rparr>)" .
  show ?case
    using Suc.prems q0 q1 q2 q3 r by (simp add: iterate.simps)
qed

lemma fix_diff_trace_grows:
  "fix_diff w d (st, m) = Some (st1, m1) \<Longrightarrow> e \<in> set (trace st) \<Longrightarrow> e \<in> set (trace st1)"
  by (auto simp add: fix_diff_def Let_def split: if_splits)

lemma event_persists:
  "e \<in> set (trace st) \<Longrightarrow> e \<in> set (trace (snd (iterate w k i st)))"
  by (rule iterate_invariant[where Q = "\<lambda>s. e \<in> set (trace s)"])
     (auto intro: fix_diff_trace_grows)

lemma fix_diff_modified:
  assumes "fix_diff w d (st, m) = Some (st1, m1)"
  shows "length m \<le> length m1 \<and>
         (length m1 = length m \<longrightarrow> files st1 = files st \<and> trace st1 = trace st)"
  using assms by (auto simp add: fix_diff_def Let_def split: if_splits)

lemma fix_agent_modified:
  assumes "fix_agent w ds (st, m) = (c, st1, m1)"
  shows "length m \<le> length m1 \<and>
         (length m1 = length m \<longrightarrow> files st1 = files st \<and> trace st1 = trace st)"
  using assms
proof (induction ds arbitrary: st m)
  case Nil
  then show ?case by simp
next
  case (Cons d ds)
  show ?case
  proof (cases "fix_diff w d (st, m)")
    case None
    with Cons.prems show ?thesis by simp
  next
    case (Some sm2)
    obtain s2 m2 where sm2: "sm2 = (s2, m2)" by (cases sm2)
    from fix_diff_modified[of w d st m s2 m2] Some sm2
    have a: "length m \<le> length m2"
         "length m2 = length m \<longrightarrow> files s2 = files st \<and> trace s2 = trace st"
      by simp_all
    from Cons.prems Some sm2 have "fix_agent w ds (s2, m2) = (c, st1, m1)" by simp
    from Cons.IH[OF this]
    have b: "length m2 \<le> length m1"
         "length m1 = length m2 \<longrightarrow> files st1 = files s2 \<and> trace st1 = trace s2"
      by simp_all
    from a b show ?thesis by auto
  qed
qed

lemma fix_agent_all_skipped:
  assumes "\<forall>d \<in> set ds. diff_file d = [] \<or> diff_file d \<notin> dom fs \<or>
             (\<forall>n. get_llm_fix w n d (the (fs (diff_file d))) \<noteq> Llm_raises \<and>
                  \<not> usable (get_llm_fix w n d (the (fs (diff_file d)))))"
      and "files st = fs"
  shows "\<exists>st1. fix_agent w ds (st, m) = (True, st1, m) \<and> files st1 = fs \<and> trace st1 = trace st"
  using assms
proof (induction ds arbitrary: st)
  case Nil
  then show ?case by simp
next
  case (Cons d ds)
  from Cons.prems have skip: "diff_file d = [] \<or> diff_file d \<notin> dom (files st) \<or>
     (get_llm_fix w (llm_calls st) d (the (files st (diff_file d))) \<noteq> Llm_raises \<and>
      \<not> usable (get_llm_fix w (llm_calls st) d (the (files st (diff_file d)))))"
    by auto
  then have "\<exists>s1. fix_diff w d (st, m) = Some (s1, m) \<and> files s1 = files st \<and>
                  trace s1 = trace st"
    by (cases "diff_file d = [] \<or> diff_file d \<notin> dom (files st)")
       (simp_all add: fix_diff_def Let_def)
  then obtain s1 where s1: "fix_diff w d (st, m) = Some (s1, m)" "files s1 = files st"
    "trace s1 = trace st"
    by blast
  with Cons.prems(2) have "files s1 = fs" by simp
  from Cons.IH[OF _ this] Cons.prems(1)
  obtain st1 where "fix_agent w ds (s1, m) = (True, st1, m)" "files st1 = fs" "trace st1 = trace s1"
    by auto
  with s1 show ?case by simp
qed

lemma fix_diff_keeps_backup:
  assumes "fix_diff w d (st, m) = Some (st1, m1)" "files st (p @ ''.bak'') = Some b"
    "diff_file d \<noteq> p @ ''.bak''"
  shows "files st1 (p @ ''.bak'') = Some b"
  using assms by (auto simp add: fix_diff_def Let_def split: if_splits)

lemma iterate_keeps_backup:
  assumes "files st (p @ ''.bak'') = Some b" "p @ ''.bak'' \<notin> repair_targets w"
  shows "files (snd (iterate w k i st)) (p @ ''.bak'') = Some b"
proof (rule iterate_invariant[where Q = "\<lambda>s. files s (p @ ''.bak'') = Some b"])
  fix j d s m s1 m1
  assume d: "d \<in> set (diffs_at w j)" and q: "files s (p @ ''.bak'') = Some b"
    and f: "fix_diff w d (s, m) = Some (s1, m1)"
  from d assms(2) have "diff_file d \<noteq> p @ ''.bak''"
    by (auto simp add: repair_targets_def)
  from fix_diff_keeps_backup[OF f q this] show "files s1 (p @ ''.bak'') = Some b" .
qed (simp_all add: assms(1))

lemma fix_diff_first_touch:
  assumes "fix_diff w d (st, m) = Some (st1, m1)"
    "(files st (p @ ''.bak'') = None \<and> files st p = Some c) \<or> files st (p @ ''.bak'') = Some c"
    "diff_file d \<noteq> p @ ''.bak''"
  shows "(files st1 (p @ ''.bak'') = None \<and> files st1 p = Some c) \<or>
         files st1 (p @ ''.bak'') = Some c"
  using assms by (auto simp add: fix_diff_def Let_def split: if_splits)

lemma iterate_first_touch:
  assumes "files st p = Some c" "files st (p @ ''.bak'') = None"
    "p @ ''.bak'' \<notin> repair_targets w"
  shows "(files (snd (iterate w k i st)) (p @ ''.bak'') = None \<and>
          files (snd (iterate w k i st)) p = Some c) \<or>
         files (snd (iterate w k i st)) (p @ ''.bak'') = Some c"
proof (rule iterate_invariant[where Q = "\<lambda>s. (files s (p @ ''.bak'') = None \<and> files s p = Some c) \<or>
         files s (p @ ''.bak'') = Some c"])
  fix j d s m s1 m1
  assume d: "d \<in> set (diffs_at w j)"
    and q: "(files s (p @ ''.bak'') = None \<and> files s p = Some c) \<or> files s (p @ ''.bak'') = Some c"
    and f: "fix_diff w d (s, m) = Some (s1, m1)"
  from d assms(3) have "diff_file d \<noteq> p @ ''.bak''"
    by (auto simp add: repair_targets_def)
  from fix_diff_first_touch[OF f q this]
  show "(files s1 (p @ ''.bak'') = None \<and> files s1 p = Some c) \<or> files s1 (p @ ''.bak'') = Some c" .
qed (simp_all add: assms(1,2))

lemma fix_diff_one_backup:
  assumes "fix_diff w d (st, m) = Some (st1, m1)"
    "length (backups_of p (trace st)) \<le> 1"
    "backups_of p (trace st) \<noteq> [] \<longrightarrow> files st (p @ ''.bak'') \<noteq> None"
  shows "length (backups_of p (trace st1)) \<le> 1 \<and>
         (backups_of p (trace st1) \<noteq> [] \<longrightarrow> files st1 (p @ ''.bak'') \<noteq> None)"
  using assms by (auto simp add: fix_diff_def Let_def backups_of_def split: if_splits)

lemma iterate_one_backup:
  assumes "backups_of p (trace st) = []"
  shows "length (backups_of p (trace (snd (iterate w k i st)))) \<le> 1"
proof -
  have "length (backups_of p (trace (snd (iterate w k i st)))) \<le> 1 \<and>
        (backups_of p (trace (snd (iterate w k i st))) \<noteq> [] \<longrightarrow>
           files (snd (iterate w k i st)) (p @ ''.bak'') \<noteq> None)"
  proof (rule iterate_invariant[where Q = "\<lambda>s. length (backups_of p (trace s)) \<le> 1 \<and>
        (backups_of p (trace s) \<noteq> [] \<longrightarrow> files s (p @ ''.bak'') \<noteq> None)"])
    fix j d s m s1 m1
    assume q: "length (backups_of p (trace s)) \<le> 1 \<and>
        (backups_of p (trace s) \<noteq> [] \<longrightarrow> files s (p @ ''.bak'') \<noteq> None)"
      and f: "fix_diff w d (s, m) = Some (s1, m1)"
    from fix_diff_one_backup[OF f] q
    show "length (backups_of p (trace s1)) \<le> 1 \<and>
        (backups_of p (trace s1) \<noteq> [] \<longrightarrow> files s1 (p @ ''.bak'') \<noteq> None)"
      by blast
  next
    fix s j
    assume "length (backups_of p (trace s)) \<le> 1 \<and>
        (backups_of p (trace s) \<noteq> [] \<longrightarrow> files s (p @ ''.bak'') \<noteq> None)"
    then show "length (backups_of p (trace (s\<lparr>trace := trace s @ [Simulate j]\<rparr>))) \<le> 1 \<and>
        (backups_of p (trace (s\<lparr>trace := trace s @ [Simulate j]\<rparr>)) \<noteq> [] \<longrightarrow>
           files (s\<lparr>trace := trace s @ [Simulate j]\<rparr>) (p @ ''.bak'') \<noteq> None)"
      by (simp add: backups_of_def)
  next
    from assms show "length (backups_of p (trace st)) \<le> 1 \<and>
        (backups_of p (trace st) \<noteq> [] \<longrightarrow> files st (p @ ''.bak'') \<noteq> None)"
      by simp
  qed
  then show ?thesis by blast
qed

text \<open>
  Claim C8. In an iteration that reaches the repair step, that is with the RTL parsed, the
  comparison done, and a report that is there and not empty: if the repair loop ends with
  no file modified, the run ends there, with the outcome \<open>No_files_modified\<close> (or
  \<open>Llm_call_raised\<close>, had the loop been ended by an exception), and neither the files nor
  the trace have changed since the iteration began, so that no simulation has been run.
  That is the case when every diff record names no file or a file that does not exist, or
  gets nothing or the empty text from the language model. When a file has been modified,
  the simulation of this iteration is run.
\<close>

theorem non_progress_stops_before_validate:
  assumes "step2_parse_rtl w i" and "step3_compare w i = Compared" and "diff_json_exists w i"
      and "diffs_at w i \<noteq> []"
  shows "(\<forall>completed st1. fix_agent w (diffs_at w i) (st, []) = (completed, st1, []) \<longrightarrow>
            iterate w (Suc remaining) i st =
              (if completed then No_files_modified else Llm_call_raised, st1) \<and>
            files st1 = files st \<and> trace st1 = trace st) \<and>
         ((\<forall>d \<in> set (diffs_at w i).
              diff_file d = [] \<or> diff_file d \<notin> dom (files st) \<or>
              (\<forall>n. get_llm_fix w n d (the (files st (diff_file d))) = No_fix \<or>
                   get_llm_fix w n d (the (files st (diff_file d))) = Fix [])) \<longrightarrow>
            (\<exists>st1. iterate w (Suc remaining) i st = (No_files_modified, st1) \<and>
                   files st1 = files st \<and> trace st1 = trace st)) \<and>
         (\<forall>st1 modified_files.
            fix_agent w (diffs_at w i) (st, []) = (True, st1, modified_files) \<and>
            modified_files \<noteq> [] \<longrightarrow>
            Simulate i \<in> set (trace (snd (iterate w (Suc remaining) i st))))"
proof (intro conjI allI impI)
  fix completed st1
  assume a: "fix_agent w (diffs_at w i) (st, []) = (completed, st1, [])"
  with assms show "iterate w (Suc remaining) i st =
      (if completed then No_files_modified else Llm_call_raised, st1)"
    by (simp add: iterate.simps)
  from fix_agent_modified[OF a] show "files st1 = files st" "trace st1 = trace st"
    by simp_all
next
  assume a: "\<forall>d \<in> set (diffs_at w i).
              diff_file d = [] \<or> diff_file d \<notin> dom (files st) \<or>
              (\<forall>n. get_llm_fix w n d (the (files st (diff_file d))) = No_fix \<or>
                   get_llm_fix w n d (the (files st (diff_file d))) = Fix [])"
  have "\<forall>d \<in> set (diffs_at w i). diff_file d = [] \<or> diff_file d \<notin> dom (files st) \<or>
             (\<forall>n. get_llm_fix w n d (the (files st (diff_file d))) \<noteq> Llm_raises \<and>
                  \<not> usable (get_llm_fix w n d (the (files st (diff_file d)))))"
  proof
    fix d
    assume "d \<in> set (diffs_at w i)"
    with a have "diff_file d = [] \<or> diff_file d \<notin> dom (files st) \<or>
              (\<forall>n. get_llm_fix w n d (the (files st (diff_file d))) = No_fix \<or>
                   get_llm_fix w n d (the (files st (diff_file d))) = Fix [])"
      by blast
    moreover have "r \<noteq> Llm_raises \<and> \<not> usable r" if "r = No_fix \<or> r = Fix []" for r
      using that by (auto simp add: usable_def)
    ultimately show "diff_file d = [] \<or> diff_file d \<notin> dom (files st) \<or>
             (\<forall>n. get_llm_fix w n d (the (files st (diff_file d))) \<noteq> Llm_raises \<and>
                  \<not> usable (get_llm_fix w n d (the (files st (diff_file d)))))"
      by blast
  qed
  from fix_agent_all_skipped[OF this refl, of "[]"]
  obtain st1 where s: "fix_agent w (diffs_at w i) (st, []) = (True, st1, [])"
    "files st1 = files st" "trace st1 = trace st"
    by blast
  with assms have "iterate w (Suc remaining) i st = (No_files_modified, st1)"
    by (simp add: iterate.simps)
  with s show "\<exists>st1. iterate w (Suc remaining) i st = (No_files_modified, st1) \<and>
                   files st1 = files st \<and> trace st1 = trace st"
    by blast
next
  fix st1 modified_files
  assume a: "fix_agent w (diffs_at w i) (st, []) = (True, st1, modified_files) \<and>
            modified_files \<noteq> []"
  have "Simulate i \<in> set (trace (snd (iterate w remaining (Suc i)
          (st1\<lparr>trace := trace st1 @ [Simulate i]\<rparr>))))"
    by (rule event_persists) simp
  with a assms show "Simulate i \<in> set (trace (snd (iterate w (Suc remaining) i st)))"
    by (simp add: iterate.simps)
qed

theorem non_progress_stops_before_validate_witness:
  "step2_parse_rtl (ex_world No_fix True) 0 \<and>
   step3_compare (ex_world No_fix True) 0 = Compared \<and>
   diff_json_exists (ex_world No_fix True) 0 \<and>
   diffs_at (ex_world No_fix True) 0 \<noteq> [] \<and>
   main (ex_world No_fix True) True [''a.v'' \<mapsto> ''B''] =
     (No_files_modified, \<lparr>files = [''a.v'' \<mapsto> ''B''], llm_calls = 1, trace = []\<rparr>) \<and>
   main (ex_world (Fix []) True) True [''a.v'' \<mapsto> ''B''] =
     (No_files_modified, \<lparr>files = [''a.v'' \<mapsto> ''B''], llm_calls = 1, trace = []\<rparr>) \<and>
   main (ex_world (Fix ''C'') True) True [''b.v'' \<mapsto> ''B''] =
     (No_files_modified, \<lparr>files = [''b.v'' \<mapsto> ''B''], llm_calls = 0, trace = []\<rparr>) \<and>
   main (ex_world Llm_raises True) True [''a.v'' \<mapsto> ''B''] =
     (Llm_call_raised, \<lparr>files = [''a.v'' \<mapsto> ''B''], llm_calls = 0, trace = []\<rparr>) \<and>
   Simulate 0 \<in> set (trace (snd (main (ex_world (Fix ''C'') True) True [''a.v'' \<mapsto> ''B''])))"
proof -
  let ?init = "\<lambda>fs. \<lparr>files = fs, llm_calls = 0, trace = []\<rparr>"
  have h: "step2_parse_rtl (ex_world r s) 0" "step3_compare (ex_world r s) 0 = Compared"
    "diff_json_exists (ex_world r s) 0" "diffs_at (ex_world r s) 0 \<noteq> []" for r s
    by (simp_all add: ex_world_def)
  have m: "main w True fs = iterate w (Suc 4) 0 (?init fs)" for w fs
    by (simp add: main_def MAX_ITER_def)
  have f1: "fix_agent (ex_world No_fix True) (diffs_at (ex_world No_fix True) 0)
              (?init [''a.v'' \<mapsto> ''B''], []) =
            (True, \<lparr>files = [''a.v'' \<mapsto> ''B''], llm_calls = 1, trace = []\<rparr>, [])"
    by (simp add: fix_diff_def ex_world_def ex_diff_def usable_def Let_def)
  have f2: "fix_agent (ex_world (Fix []) True) (diffs_at (ex_world (Fix []) True) 0)
              (?init [''a.v'' \<mapsto> ''B''], []) =
            (True, \<lparr>files = [''a.v'' \<mapsto> ''B''], llm_calls = 1, trace = []\<rparr>, [])"
    by (simp add: fix_diff_def ex_world_def ex_diff_def usable_def Let_def)
  have f3: "fix_agent (ex_world (Fix ''C'') True) (diffs_at (ex_world (Fix ''C'') True) 0)
              (?init [''b.v'' \<mapsto> ''B''], []) =
            (True, \<lparr>files = [''b.v'' \<mapsto> ''B''], llm_calls = 0, trace = []\<rparr>, [])"
    by (simp add: fix_diff_def ex_world_def ex_diff_def usable_def Let_def)
  have f4: "fix_agent (ex_world (Fix ''C'') True) (diffs_at (ex_world (Fix ''C'') True) 0)
              (?init [''a.v'' \<mapsto> ''B''], []) =
            (True, \<lparr>files = [''a.v'' \<mapsto> ''C'', ''a.v.bak'' \<mapsto> ''B''], llm_calls = 1,
                    trace = [Backup ''a.v'' ''B'', Write_file ''a.v'' ''C'']\<rparr>, [''a.v''])"
    by (simp add: fix_diff_def ex_world_def ex_diff_def usable_def fix_text_def Let_def
        fun_upd_twist)
  have f5: "fix_agent (ex_world Llm_raises True) (diffs_at (ex_world Llm_raises True) 0)
              (?init [''a.v'' \<mapsto> ''B''], []) =
            (False, \<lparr>files = [''a.v'' \<mapsto> ''B''], llm_calls = 0, trace = []\<rparr>, [])"
    by (simp add: fix_diff_def ex_world_def ex_diff_def usable_def Let_def)
  from non_progress_stops_before_validate[OF h, of No_fix True "?init [''a.v'' \<mapsto> ''B'']" 4] f1
  have "iterate (ex_world No_fix True) (Suc 4) 0 (?init [''a.v'' \<mapsto> ''B'']) =
     (if True then No_files_modified else Llm_call_raised,
      \<lparr>files = [''a.v'' \<mapsto> ''B''], llm_calls = 1, trace = []\<rparr>)"
    by blast
  then have r1: "main (ex_world No_fix True) True [''a.v'' \<mapsto> ''B''] =
     (No_files_modified, \<lparr>files = [''a.v'' \<mapsto> ''B''], llm_calls = 1, trace = []\<rparr>)"
    by (simp add: m)
  from non_progress_stops_before_validate[OF h, of "Fix []" True "?init [''a.v'' \<mapsto> ''B'']" 4] f2
  have "iterate (ex_world (Fix []) True) (Suc 4) 0 (?init [''a.v'' \<mapsto> ''B'']) =
     (if True then No_files_modified else Llm_call_raised,
      \<lparr>files = [''a.v'' \<mapsto> ''B''], llm_calls = 1, trace = []\<rparr>)"
    by blast
  then have r2: "main (ex_world (Fix []) True) True [''a.v'' \<mapsto> ''B''] =
     (No_files_modified, \<lparr>files = [''a.v'' \<mapsto> ''B''], llm_calls = 1, trace = []\<rparr>)"
    by (simp add: m)
  from non_progress_stops_before_validate[OF h, of "Fix ''C''" True "?init [''b.v'' \<mapsto> ''B'']" 4] f3
  have "iterate (ex_world (Fix ''C'') True) (Suc 4) 0 (?init [''b.v'' \<mapsto> ''B'']) =
     (if True then No_files_modified else Llm_call_raised,
      \<lparr>files = [''b.v'' \<mapsto> ''B''], llm_calls = 0, trace = []\<rparr>)"
    by blast
  then have r3: "main (ex_world (Fix ''C'') True) True [''b.v'' \<mapsto> ''B''] =
     (No_files_modified, \<lparr>files = [''b.v'' \<mapsto> ''B''], llm_calls = 0, trace = []\<rparr>)"
    by (simp add: m)
  from non_progress_stops_before_validate[OF h, of Llm_raises True "?init [''a.v'' \<mapsto> ''B'']" 4] f5
  have "iterate (ex_world Llm_raises True) (Suc 4) 0 (?init [''a.v'' \<mapsto> ''B'']) =
     (if False then No_files_modified else Llm_call_raised,
      \<lparr>files = [''a.v'' \<mapsto> ''B''], llm_calls = 0, trace = []\<rparr>)"
    by blast
  then have r5: "main (ex_world Llm_raises True) True [''a.v'' \<mapsto> ''B''] =
     (Llm_call_raised, \<lparr>files = [''a.v'' \<mapsto> ''B''], llm_calls = 0, trace = []\<rparr>)"
    by (simp add: m)
  have ne: "[''a.v''] \<noteq> ([] :: string list)" by simp
  from non_progress_stops_before_validate[OF h, of "Fix ''C''" True "?init [''a.v'' \<mapsto> ''B'']" 4] f4 ne
  have "Simulate 0 \<in> set (trace (snd (iterate (ex_world (Fix ''C'') True) (Suc 4) 0
          (?init [''a.v'' \<mapsto> ''B'']))))"
    by blast
  then have r4: "Simulate 0 \<in> set (trace (snd (main (ex_world (Fix ''C'') True) True [''a.v'' \<mapsto> ''B''])))"
    by (simp add: m)
  from h[of No_fix True] r1 r2 r3 r5 r4 show ?thesis by blast
qed

text \<open>
  Claim C9, as stated, fails. A file \<open>a.v.bak\<close> left by an earlier run is there when this run
  starts. The first time \<open>a.v\<close> is about to be overwritten, no backup is written, and the
  content \<open>B\<close> that \<open>a.v\<close> had at that moment is in no file once the run is over.
\<close>

theorem stale_backup_counterexample:
  "main (ex_world (Fix ''C'') True) True [''a.v'' \<mapsto> ''B'', ''a.v.bak'' \<mapsto> ''A''] =
     (Sim_passed_after_fix,
      \<lparr>files = [''a.v'' \<mapsto> ''C'', ''a.v.bak'' \<mapsto> ''A''], llm_calls = 1,
       trace = [Write_file ''a.v'' ''C'', Simulate 0]\<rparr>)"
  by (simp add: main_def MAX_ITER_def numeral_eq_Suc iterate.simps fix_diff_def
      ex_world_def ex_diff_def usable_def fix_text_def Let_def fun_upd_twist)

text \<open>
  Claim C9, amended. Over a whole run, whatever the tools answer: a backup that is there
  when the run starts is never overwritten, provided no diff record names the backup file
  itself; for a file that is there without a backup when the run starts, and whose
  backup file no diff record names, either it still has its content and has no backup, or
  its backup holds the content it had when the run started, which is its content at the
  first repair; and at most one backup copy of any file is made. In one step of the
  repair loop with a usable answer, the backup is made from the content just read,
  before the file is overwritten, when there is none, and no backup is made and the
  existing one is left as it is, when there is one.
\<close>

theorem backup_first_touch:
  "(files0 (p @ ''.bak'') = Some b \<and> p @ ''.bak'' \<notin> repair_targets w \<longrightarrow>
      files (snd (main w step1_parse_spec files0)) (p @ ''.bak'') = Some b) \<and>
   (files0 p = Some c \<and> files0 (p @ ''.bak'') = None \<and> p @ ''.bak'' \<notin> repair_targets w \<longrightarrow>
      (files (snd (main w step1_parse_spec files0)) (p @ ''.bak'') = None \<and>
       files (snd (main w step1_parse_spec files0)) p = Some c) \<or>
      files (snd (main w step1_parse_spec files0)) (p @ ''.bak'') = Some c) \<and>
   length (backups_of p (trace (snd (main w step1_parse_spec files0)))) \<le> 1 \<and>
   (diff_file d \<noteq> [] \<and> files st (diff_file d) = Some c \<and>
    get_llm_fix w (llm_calls st) d c = Fix new_content \<and> new_content \<noteq> [] \<longrightarrow>
      (files st (diff_file d @ ''.bak'') = None \<longrightarrow>
         fix_diff w d (st, modified_files) =
           Some (st\<lparr>files := (files st)(diff_file d @ ''.bak'' \<mapsto> c, diff_file d \<mapsto> new_content),
                    llm_calls := Suc (llm_calls st),
                    trace := trace st @ [Backup (diff_file d) c, Write_file (diff_file d) new_content]\<rparr>,
                 modified_files @ [diff_file d])) \<and>
      (files st (diff_file d @ ''.bak'') \<noteq> None \<longrightarrow>
         fix_diff w d (st, modified_files) =
           Some (st\<lparr>files := (files st)(diff_file d \<mapsto> new_content),
                    llm_calls := Suc (llm_calls st),
                    trace := trace st @ [Write_file (diff_file d) new_content]\<rparr>,
                 modified_files @ [diff_file d])))"
proof -
  let ?init = "\<lparr>files = files0, llm_calls = 0, trace = []\<rparr>"
  have m: "snd (main w step1_parse_spec files0) =
             (if step1_parse_spec then snd (iterate w MAX_ITER 0 ?init) else ?init)"
    by (simp add: main_def)
  have 1: "files0 (p @ ''.bak'') = Some b \<and> p @ ''.bak'' \<notin> repair_targets w \<longrightarrow>
      files (snd (main w step1_parse_spec files0)) (p @ ''.bak'') = Some b"
    using iterate_keeps_backup[of ?init p b w MAX_ITER 0] by (simp add: m)
  have 2: "files0 p = Some c \<and> files0 (p @ ''.bak'') = None \<and> p @ ''.bak'' \<notin> repair_targets w \<longrightarrow>
      (files (snd (main w step1_parse_spec files0)) (p @ ''.bak'') = None \<and>
       files (snd (main w step1_parse_spec files0)) p = Some c) \<or>
      files (snd (main w step1_parse_spec files0)) (p @ ''.bak'') = Some c"
    using iterate_first_touch[of ?init p c w MAX_ITER 0] by (simp add: m)
  have 3: "length (backups_of p (trace (snd (main w step1_parse_spec files0)))) \<le> 1"
    using iterate_one_backup[of p ?init w MAX_ITER 0] by (simp add: m backups_of_def)
  have 4: "diff_file d \<noteq> [] \<and> files st (diff_file d) = Some c \<and>
    get_llm_fix w (llm_calls st) d c = Fix new_content \<and> new_content \<noteq> [] \<longrightarrow>
      (files st (diff_file d @ ''.bak'') = None \<longrightarrow>
         fix_diff w d (st, modified_files) =
           Some (st\<lparr>files := (files st)(diff_file d @ ''.bak'' \<mapsto> c, diff_file d \<mapsto> new_content),
                    llm_calls := Suc (llm_calls st),
                    trace := trace st @ [Backup (diff_file d) c, Write_file (diff_file d) new_content]\<rparr>,
                 modified_files @ [diff_file d])) \<and>
      (files st (diff_file d @ ''.bak'') \<noteq> None \<longrightarrow>
         fix_diff w d (st, modified_files) =
           Some (st\<lparr>files := (files st)(diff_file d \<mapsto> new_content),
                    llm_calls := Suc (llm_calls st),
                    trace := trace st @ [Write_file (diff_file d) new_content]\<rparr>,
                 modified_files @ [diff_file d]))"
    by (auto simp add: fix_diff_def Let_def usable_def fix_text_def)
  from 1 2 3 4 show ?thesis by blast
qed

theorem backup_first_touch_witness:
  "[''a.v'' \<mapsto> ''B''] ''a.v'' = Some ''B'' \<and> [''a.v'' \<mapsto> ''B''] (''a.v'' @ ''.bak'') = None \<and>
   ''a.v'' @ ''.bak'' \<notin> repair_targets ex_world_retry \<and>
   main ex_world_retry True [''a.v'' \<mapsto> ''B''] =
     (Sim_passed_after_fix,
      \<lparr>files = [''a.v'' \<mapsto> ''D'', ''a.v.bak'' \<mapsto> ''B''], llm_calls = 2,
       trace = [Backup ''a.v'' ''B'', Write_file ''a.v'' ''C'', Simulate 0,
                Write_file ''a.v'' ''D'', Simulate 1]\<rparr>) \<and>
   files (snd (main ex_world_retry True [''a.v'' \<mapsto> ''B''])) (''a.v'' @ ''.bak'') = Some ''B'' \<and>
   length (backups_of ''a.v'' (trace (snd (main ex_world_retry True [''a.v'' \<mapsto> ''B''])))) = 1"
proof -
  have a: "[''a.v'' \<mapsto> ''B''] ''a.v'' = Some ''B''" "[''a.v'' \<mapsto> ''B''] (''a.v'' @ ''.bak'') = None"
    by simp_all
  have t: "''a.v'' @ ''.bak'' \<notin> repair_targets ex_world_retry"
    by (simp add: repair_targets_def ex_world_retry_def ex_diff_def)
  have r: "main ex_world_retry True [''a.v'' \<mapsto> ''B''] =
     (Sim_passed_after_fix,
      \<lparr>files = [''a.v'' \<mapsto> ''D'', ''a.v.bak'' \<mapsto> ''B''], llm_calls = 2,
       trace = [Backup ''a.v'' ''B'', Write_file ''a.v'' ''C'', Simulate 0,
                Write_file ''a.v'' ''D'', Simulate 1]\<rparr>)"
    by (simp add: main_def MAX_ITER_def numeral_eq_Suc iterate.simps fix_diff_def
      ex_world_retry_def ex_diff_def usable_def fix_text_def Let_def fun_upd_twist)
  have n: "files (snd (main ex_world_retry True [''a.v'' \<mapsto> ''B''])) ''a.v'' \<noteq> Some ''B''"
    by (simp add: r)
  from backup_first_touch[of "[''a.v'' \<mapsto> ''B'']" "''a.v''" _ ex_world_retry True "''B''"] a t n
  have b: "files (snd (main ex_world_retry True [''a.v'' \<mapsto> ''B''])) (''a.v'' @ ''.bak'') = Some ''B''"
    by blast
  have l: "length (backups_of ''a.v'' (trace (snd (main ex_world_retry True [''a.v'' \<mapsto> ''B''])))) = 1"
    by (simp add: r backups_of_def)
  from a t r b l show ?thesis by blast
qed

end
